theory Spec2Isabelle
  imports Complex_Main "HOL-Library.Word"
begin

section \<open>JavaScript strings\<close>

text \<open>
  A JavaScript string is a sequence of UTF-16 code units. \<open>js\<close> embeds an ASCII
  literal.
\<close>

type_synonym jschar = "16 word"
type_synonym jsstring = "jschar list"

definition js :: "string \<Rightarrow> jsstring" where
  "js s = map of_char s"

text \<open>
  The character classes of ECMAScript regular expressions without the \<^verbatim>\<open>u\<close> flag:
  \<^verbatim>\<open>\s\<close> (white space and line terminators, also what \<^verbatim>\<open>trim()\<close> strips),
  \<^verbatim>\<open>\d\<close>, \<^verbatim>\<open>\w\<close>, and the line terminators that \<^verbatim>\<open>.\<close> excludes.
\<close>

definition isSpace :: "jschar \<Rightarrow> bool" where
  "isSpace c \<longleftrightarrow> c \<in> {0x9, 0xA, 0xB, 0xC, 0xD, 0x20, 0xA0, 0x1680, 0x2028, 0x2029, 0x202F, 0x205F, 0x3000, 0xFEFF}
      \<or> (0x2000 \<le> c \<and> c \<le> 0x200A)"

definition isDigit :: "jschar \<Rightarrow> bool" where
  "isDigit c \<longleftrightarrow> 0x30 \<le> c \<and> c \<le> 0x39"

definition isWord :: "jschar \<Rightarrow> bool" where
  "isWord c \<longleftrightarrow> (0x41 \<le> c \<and> c \<le> 0x5A) \<or> (0x61 \<le> c \<and> c \<le> 0x7A) \<or> isDigit c \<or> c = 0x5F"

definition isLineTerminator :: "jschar \<Rightarrow> bool" where
  "isLineTerminator c \<longleftrightarrow> c \<in> {0xA, 0xD, 0x2028, 0x2029}"

text \<open>
  Under the \<^verbatim>\<open>i\<close> flag two code units match when their canonical forms agree. The
  patterns of this program use ASCII letters only, and the canonical form of a code unit
  outside ASCII is never an ASCII letter, so upper-casing the ASCII letters decides it.
\<close>

definition canonicalize :: "jschar \<Rightarrow> jschar" where
  "canonicalize c = (if 0x61 \<le> c \<and> c \<le> 0x7A then c - 0x20 else c)"

definition trim :: "jsstring \<Rightarrow> jsstring" where
  "trim s = rev (dropWhile isSpace (rev (dropWhile isSpace s)))"

subsection \<open>Regular expressions\<close>

text \<open>
  The regular expressions of the source are written as terms of \<open>re\<close> and run by a
  backtracking matcher. \<open>ms r s\<close> lists the rests of \<open>s\<close> after each way \<open>r\<close>
  can match a prefix of \<open>s\<close>, in the order in which backtracking tries them: a greedy
  star tries the longest repetition first, a lazy one the shortest, an alternative its
  left branch first. As in ECMAScript, an iteration of a star that consumes nothing is
  dropped, so the length of the input bounds the number of iterations.
\<close>

datatype re =
    Cls "jschar \<Rightarrow> bool"
  | Eps
  | Seq re re
  | Alt re re
  | Star re
  | LazyStar re
  | LazyUpTo nat re
  | Eol
  | Ahead re

primrec star :: "(jsstring \<Rightarrow> jsstring list) \<Rightarrow> nat \<Rightarrow> jsstring \<Rightarrow> jsstring list" where
  "star f 0 s = [s]"
| "star f (Suc n) s =
     concat (map (\<lambda>s'. if length s' < length s then star f n s' else []) (f s)) @ [s]"

primrec lazy_star :: "(jsstring \<Rightarrow> jsstring list) \<Rightarrow> nat \<Rightarrow> jsstring \<Rightarrow> jsstring list" where
  "lazy_star f 0 s = [s]"
| "lazy_star f (Suc n) s =
     s # concat (map (\<lambda>s'. if length s' < length s then lazy_star f n s' else []) (f s))"

primrec lazy_upto :: "(jsstring \<Rightarrow> jsstring list) \<Rightarrow> nat \<Rightarrow> jsstring \<Rightarrow> jsstring list" where
  "lazy_upto f 0 s = [s]"
| "lazy_upto f (Suc n) s =
     s # concat (map (\<lambda>s'. if length s' < length s then lazy_upto f n s' else []) (f s))"

primrec ms :: "re \<Rightarrow> jsstring \<Rightarrow> jsstring list" where
  "ms (Cls p) s = (case s of [] \<Rightarrow> [] | c # cs \<Rightarrow> if p c then [cs] else [])"
| "ms Eps s = [s]"
| "ms (Seq a b) s = concat (map (ms b) (ms a s))"
| "ms (Alt a b) s = ms a s @ ms b s"
| "ms (Star a) s = star (ms a) (length s) s"
| "ms (LazyStar a) s = lazy_star (ms a) (length s) s"
| "ms (LazyUpTo n a) s = lazy_upto (ms a) n s"
| "ms Eol s = (if s = [] then [s] else [])"
| "ms (Ahead a) s = (if ms a s = [] then [] else [s])"

text \<open>The match found at the current position is the first one in that order.\<close>

definition first_match :: "re \<Rightarrow> jsstring \<Rightarrow> jsstring option" where
  "first_match r s = (case ms r s of [] \<Rightarrow> None | s' # _ \<Rightarrow> Some s')"

text \<open>
  \<^verbatim>\<open>s.replace(/r/g, rep)\<close>: scan from the left; at a match, emit \<open>rep\<close> and go on
  after the match (\<open>skip\<close> counts the matched code units still to pass); an empty match
  emits \<open>rep\<close> and moves one code unit on.
\<close>

fun gsub :: "(jsstring \<Rightarrow> jsstring option) \<Rightarrow> jsstring \<Rightarrow> nat \<Rightarrow> jsstring \<Rightarrow> jsstring" where
  "gsub m rep skip [] = (if skip = 0 \<and> m [] \<noteq> None then rep else [])"
| "gsub m rep (Suc k) (c # cs) = gsub m rep k cs"
| "gsub m rep 0 (c # cs) =
     (case m (c # cs) of
        None \<Rightarrow> c # gsub m rep 0 cs
      | Some s' \<Rightarrow>
          (let n = length (c # cs) - length s'
           in if n = 0 then rep @ c # gsub m rep 0 cs else rep @ gsub m rep (n - 1) cs))"

definition replace_all :: "re \<Rightarrow> jsstring \<Rightarrow> jsstring \<Rightarrow> jsstring" where
  "replace_all r rep s = gsub (first_match r) rep 0 s"

text \<open>\<^verbatim>\<open>s.replace(/^r/, rep)\<close>: the pattern is anchored at the start, one match only.\<close>

definition replace_start :: "re \<Rightarrow> jsstring \<Rightarrow> jsstring \<Rightarrow> jsstring" where
  "replace_start r rep s = (case first_match r s of None \<Rightarrow> s | Some s' \<Rightarrow> rep @ s')"

definition chr :: "char \<Rightarrow> re" where
  "chr c = Cls (\<lambda>x. x = of_char c)"

definition chr_i :: "char \<Rightarrow> re" where
  "chr_i c = Cls (\<lambda>x. canonicalize x = canonicalize (of_char c))"

definition lit_i :: "string \<Rightarrow> re" where
  "lit_i s = foldr (\<lambda>c r. Seq (chr_i c) r) s Eps"

definition plus :: "re \<Rightarrow> re" where
  "plus r = Seq r (Star r)"

definition any_of :: "re list \<Rightarrow> re" where
  "any_of rs = foldr Alt rs (Cls (\<lambda>c. False))"

text \<open>
  For a pattern with capture groups, the pattern is a list of consecutive parts and
  \<open>match_parts\<close> lists, in backtracking order, the texts matched by the parts and the
  rest.
\<close>

fun match_parts :: "re list \<Rightarrow> jsstring \<Rightarrow> (jsstring list \<times> jsstring) list" where
  "match_parts [] s = [([], s)]"
| "match_parts (r # rs) s =
     concat (map (\<lambda>s'. map (\<lambda>(groups, rest). (take (length s - length s') s # groups, rest))
                          (match_parts rs s'))
                 (ms r s))"

definition first_groups :: "re list \<Rightarrow> jsstring \<Rightarrow> jsstring list option" where
  "first_groups rs s = (case match_parts rs s of [] \<Rightarrow> None | (groups, rest) # _ \<Rightarrow> Some groups)"

text \<open>\<^verbatim>\<open>s.match(/r/)\<close> without the \<^verbatim>\<open>g\<close> flag: the match at the leftmost position that has one.\<close>

fun leftmost :: "(jsstring \<Rightarrow> 'a option) \<Rightarrow> jsstring \<Rightarrow> 'a option" where
  "leftmost m [] = m []"
| "leftmost m (c # cs) = (case m (c # cs) of Some x \<Rightarrow> Some x | None \<Rightarrow> leftmost m cs)"

text \<open>\<^verbatim>\<open>s.match(/r/g)\<close>: the matched texts, scanning as \<^verbatim>\<open>replace\<close> does (no match: no text).\<close>

fun gmatch :: "(jsstring \<Rightarrow> jsstring option) \<Rightarrow> nat \<Rightarrow> jsstring \<Rightarrow> jsstring list" where
  "gmatch m skip [] = (if skip = 0 \<and> m [] \<noteq> None then [[]] else [])"
| "gmatch m (Suc k) (c # cs) = gmatch m k cs"
| "gmatch m 0 (c # cs) =
     (case m (c # cs) of
        None \<Rightarrow> gmatch m 0 cs
      | Some s' \<Rightarrow>
          (let n = length (c # cs) - length s'
           in take n (c # cs) # (if n = 0 then gmatch m 0 cs else gmatch m (n - 1) cs)))"

definition match_all :: "re \<Rightarrow> jsstring \<Rightarrow> jsstring list" where
  "match_all r s = gmatch (first_match r) 0 s"

text \<open>\<^verbatim>\<open>s.replace(/r/, rep)\<close> without flags: the leftmost match only.\<close>

fun replace_first_by :: "(jsstring \<Rightarrow> jsstring option) \<Rightarrow> jsstring \<Rightarrow> jsstring \<Rightarrow> jsstring" where
  "replace_first_by m rep [] = (case m [] of None \<Rightarrow> [] | Some s' \<Rightarrow> rep)"
| "replace_first_by m rep (c # cs) =
     (case m (c # cs) of None \<Rightarrow> c # replace_first_by m rep cs | Some s' \<Rightarrow> rep @ s')"

definition replace_first :: "re \<Rightarrow> jsstring \<Rightarrow> jsstring \<Rightarrow> jsstring" where
  "replace_first r rep s = replace_first_by (first_match r) rep s"

text \<open>\<^verbatim>\<open>s.split(/r/)[0]\<close> for a pattern that matches no empty text: what precedes the leftmost match.\<close>

fun before_match :: "(jsstring \<Rightarrow> jsstring option) \<Rightarrow> jsstring \<Rightarrow> jsstring" where
  "before_match m [] = []"
| "before_match m (c # cs) = (case m (c # cs) of None \<Rightarrow> c # before_match m cs | Some s' \<Rightarrow> [])"

definition opt :: "re \<Rightarrow> re" where
  "opt r = Alt r Eps"

subsection \<open>Title normalisation\<close>

text \<open>
  \<^verbatim>\<open>cleanTitleForSearch\<close> chains, innermost first:
  \<^verbatim>\<open>/^\d+\.\s*/\<close>, \<^verbatim>\<open>/\s*\(.*?\)\s*/g\<close>, \<^verbatim>\<open>/\s*\[.*?\]\s*/g\<close>,
  \<^verbatim>\<open>/season\s+\d+/gi\<close>, \<^verbatim>\<open>/series\s+\d+/gi\<close>, \<^verbatim>\<open>/\s+/g\<close> (replaced by one space)
  and \<^verbatim>\<open>trim()\<close>.
\<close>

definition cleanTitleForSearch :: "jsstring \<Rightarrow> jsstring" where
  "cleanTitleForSearch title =
     trim
      (replace_all (plus (Cls isSpace)) (js '' '')
      (replace_all (Seq (lit_i ''series'') (Seq (plus (Cls isSpace)) (plus (Cls isDigit)))) []
      (replace_all (Seq (lit_i ''season'') (Seq (plus (Cls isSpace)) (plus (Cls isDigit)))) []
      (replace_all (Seq (Star (Cls isSpace)) (Seq (chr CHR ''['')
                     (Seq (LazyStar (Cls (\<lambda>c. \<not> isLineTerminator c))) (Seq (chr CHR '']'') (Star (Cls isSpace)))))) []
      (replace_all (Seq (Star (Cls isSpace)) (Seq (chr CHR ''('')
                     (Seq (LazyStar (Cls (\<lambda>c. \<not> isLineTerminator c))) (Seq (chr CHR '')'') (Star (Cls isSpace)))))) []
      (replace_start (Seq (plus (Cls isDigit)) (Seq (chr CHR ''.'') (Star (Cls isSpace)))) [] title))))))"

text \<open>
  \<^verbatim>\<open>removeCountryIndicators\<close> chains
  \<^verbatim>\<open>/\s*(ph|philippines|filipino|pinoy|tagalog|tl)\s*/gi\<close>,
  \<^verbatim>\<open>/\s*\(.*?(ph|philippines|filipino|pinoy).*?\)\s*/gi\<close>, \<^verbatim>\<open>/\s+/g\<close> and \<^verbatim>\<open>trim()\<close>.
  The captures of the groups are not used, so the groups are plain alternatives.
\<close>

definition removeCountryIndicators :: "jsstring \<Rightarrow> jsstring" where
  "removeCountryIndicators title =
     trim
      (replace_all (plus (Cls isSpace)) (js '' '')
      (replace_all (Seq (Star (Cls isSpace)) (Seq (chr CHR ''('')
                     (Seq (LazyStar (Cls (\<lambda>c. \<not> isLineTerminator c)))
                     (Seq (any_of [lit_i ''ph'', lit_i ''philippines'', lit_i ''filipino'', lit_i ''pinoy''])
                     (Seq (LazyStar (Cls (\<lambda>c. \<not> isLineTerminator c)))
                     (Seq (chr CHR '')'') (Star (Cls isSpace)))))))) []
      (replace_all (Seq (Star (Cls isSpace))
                     (Seq (any_of [lit_i ''ph'', lit_i ''philippines'', lit_i ''filipino'', lit_i ''pinoy'',
                                   lit_i ''tagalog'', lit_i ''tl''])
                     (Star (Cls isSpace)))) []
         title)))"

section \<open>String similarity\<close>

text \<open>
  The scraper service scores search candidates with a normalised edit distance.
  \<^verbatim>\<open>levenshteinDistance(str1, str2)\<close> fills a matrix that is built as an array of row
  arrays, by indexed writes only. A JavaScript array is an object keyed by index, so a
  row is a partial map from column index to number and the matrix a partial map from row
  index to row. A read of a missing row raises a TypeError and a read of a missing cell
  gives \<^verbatim>\<open>undefined\<close>, which turns the arithmetic into NaN: both are the result
  \<open>None\<close> of the model, and the proofs show that neither happens.
\<close>

type_synonym jsrow = "nat \<rightharpoonup> nat"
type_synonym jsmatrix = "nat \<rightharpoonup> jsrow"

text \<open>\<^verbatim>\<open>s.charAt(i)\<close> is the empty string out of range.\<close>

definition charAt :: "'a list \<Rightarrow> nat \<Rightarrow> 'a list" where
  "charAt s i = (if i < length s then [s ! i] else [])"

text \<open>\<^verbatim>\<open>matrix[i][j]\<close> and \<^verbatim>\<open>matrix[i][j] = v\<close>.\<close>

definition cell :: "jsmatrix \<Rightarrow> nat \<Rightarrow> nat \<Rightarrow> nat option" where
  "cell m i j = (case m i of None \<Rightarrow> None | Some r \<Rightarrow> r j)"

definition set_cell :: "jsmatrix \<Rightarrow> nat \<Rightarrow> nat \<Rightarrow> nat \<Rightarrow> jsmatrix option" where
  "set_cell m i j v = (case m i of None \<Rightarrow> None | Some r \<Rightarrow> Some (m(i \<mapsto> r(j \<mapsto> v))))"

text \<open>\<^verbatim>\<open>for (let k = a; k < b; k++) body\<close>, stopping when the body fails.\<close>

definition for_range :: "nat \<Rightarrow> nat \<Rightarrow> (nat \<Rightarrow> 's \<Rightarrow> 's option) \<Rightarrow> 's \<Rightarrow> 's option" where
  "for_range a b body s = fold (\<lambda>k so. Option.bind so (body k)) [a..<b] (Some s)"

definition init_rows :: "nat \<Rightarrow> jsmatrix \<Rightarrow> jsmatrix option" where
  "init_rows n2 = for_range 0 (Suc n2) (\<lambda>i m. Some (m(i \<mapsto> [0 \<mapsto> i])))"

definition init_cols :: "nat \<Rightarrow> jsmatrix \<Rightarrow> jsmatrix option" where
  "init_cols n1 = for_range 0 (Suc n1) (\<lambda>j m. set_cell m 0 j j)"

definition fill_cell :: "'a list \<Rightarrow> 'a list \<Rightarrow> nat \<Rightarrow> nat \<Rightarrow> jsmatrix \<Rightarrow> jsmatrix option" where
  "fill_cell str1 str2 i j m =
     (if charAt str2 (i - 1) = charAt str1 (j - 1) then
        Option.bind (cell m (i - 1) (j - 1)) (\<lambda>d. set_cell m i j d)
      else
        Option.bind (cell m (i - 1) (j - 1)) (\<lambda>a.
        Option.bind (cell m i (j - 1)) (\<lambda>b.
        Option.bind (cell m (i - 1) j) (\<lambda>c.
          set_cell m i j (min (a + 1) (min (b + 1) (c + 1)))))))"

definition levenshteinDistance :: "'a list \<Rightarrow> 'a list \<Rightarrow> nat option" where
  "levenshteinDistance str1 str2 =
     Option.bind (init_rows (length str2) Map.empty) (\<lambda>m.
     Option.bind (init_cols (length str1) m) (\<lambda>m.
     Option.bind (for_range 1 (Suc (length str2)) (\<lambda>i.
                    for_range 1 (Suc (length str1)) (\<lambda>j. fill_cell str1 str2 i j)) m) (\<lambda>m.
     cell m (length str2) (length str1))))"

text \<open>
  \<^verbatim>\<open>calculateStringSimilarity\<close>: the numbers of JavaScript are modelled as reals, so
  the quotient is exact where the code rounds it to a double.
\<close>

definition calculateStringSimilarity :: "'a list \<Rightarrow> 'a list \<Rightarrow> real option" where
  "calculateStringSimilarity str1 str2 =
     (let longer = (if length str1 > length str2 then str1 else str2);
          shorter = (if length str1 > length str2 then str2 else str1)
      in if length longer = 0 then Some 1
         else map_option (\<lambda>editDistance. (real (length longer) - real editDistance) / real (length longer))
                (levenshteinDistance longer shorter))"

subsection \<open>Edit scripts\<close>

text \<open>
  The reference for the distance: \<open>edits xs ys n\<close> holds when \<open>xs\<close> can be turned into
  \<open>ys\<close> by a script of single-character insertions, deletions and replacements of
  total cost \<open>n\<close>, each of cost one (keeping a character is free). The edit distance
  is the least such cost.
\<close>

inductive edits :: "'a list \<Rightarrow> 'a list \<Rightarrow> nat \<Rightarrow> bool" where
  done_e: "edits [] [] 0"
| keep_e: "edits xs ys n \<Longrightarrow> edits (x # xs) (x # ys) n"
| replace_e: "edits xs ys n \<Longrightarrow> edits (x # xs) (y # ys) (Suc n)"
| delete_e: "edits xs ys n \<Longrightarrow> edits (x # xs) ys (Suc n)"
| insert_e: "edits xs ys n \<Longrightarrow> edits xs (y # ys) (Suc n)"

fun lev :: "'a list \<Rightarrow> 'a list \<Rightarrow> nat" where
  "lev [] ys = length ys"
| "lev (x # xs) [] = Suc (length xs)"
| "lev (x # xs) (y # ys) =
     (if y = x then lev xs ys
      else min (lev xs ys + 1) (min (lev xs (y # ys) + 1) (lev (x # xs) ys + 1)))"

definition is_edit_distance :: "'a list \<Rightarrow> 'a list \<Rightarrow> nat \<Rightarrow> bool" where
  "is_edit_distance a b d \<longleftrightarrow> edits a b d \<and> (\<forall>n. edits a b n \<longrightarrow> d \<le> n)"

text \<open>
  For the proof: the distance between the prefixes of the two strings that a cell of the
  matrix holds, and the cells that are filled when the loops reach row \<open>i\<close>, column
  \<open>j\<close>.
\<close>

definition dist_at :: "'a list \<Rightarrow> 'a list \<Rightarrow> nat \<Rightarrow> nat \<Rightarrow> nat" where
  "dist_at str1 str2 i j = lev (rev (take j str1)) (rev (take i str2))"

definition filled :: "'a list \<Rightarrow> 'a list \<Rightarrow> nat \<Rightarrow> nat \<Rightarrow> jsmatrix \<Rightarrow> bool" where
  "filled str1 str2 i j m \<longleftrightarrow>
     (\<forall>i' \<le> length str2. m i' \<noteq> None) \<and>
     (\<forall>i' j'. i' \<le> length str2 \<and> j' \<le> length str1 \<and> (i' < i \<or> (i' = i \<and> j' < j) \<or> j' = 0)
        \<longrightarrow> cell m i' j' = Some (dist_at str1 str2 i' j'))"

section \<open>The match engine\<close>

text \<open>
  What the engine takes from the JavaScript runtime is a parameter: \<^verbatim>\<open>toLowerCase\<close>
  (its Unicode tables), \<^verbatim>\<open>new Date(s).getFullYear()\<close> (\<open>None\<close> is NaN, the year of an
  invalid date, for which every comparison is false) and the current year.
\<close>

record js_env =
  toLowerCase :: "jsstring \<Rightarrow> jsstring"
  fullYear :: "jsstring \<Rightarrow> int option"
  currentYear :: int

text \<open>
  A search result of the metadata API. A field that is \<open>None\<close> is absent
  (\<^verbatim>\<open>undefined\<close> or \<^verbatim>\<open>null\<close>).
\<close>

record candidate =
  r_id :: int
  r_title :: "jsstring option"
  r_name :: "jsstring option"
  r_release_date :: "jsstring option"
  r_first_air_date :: "jsstring option"
  r_media_type :: "jsstring option"
  r_origin_country :: "jsstring list option"
  r_popularity :: "real option"
  r_vote_average :: "real option"

text \<open>\<^verbatim>\<open>a || b\<close> on strings: the empty string and an absent value are falsy.\<close>

definition truthy :: "jsstring option \<Rightarrow> bool" where
  "truthy a \<longleftrightarrow> (case a of None \<Rightarrow> False | Some s \<Rightarrow> s \<noteq> [])"

definition or_else :: "jsstring option \<Rightarrow> jsstring option \<Rightarrow> jsstring option" where
  "or_else a b = (if truthy a then a else b)"

definition or_str :: "jsstring option \<Rightarrow> jsstring \<Rightarrow> jsstring" where
  "or_str a b = (case a of None \<Rightarrow> b | Some s \<Rightarrow> if s \<noteq> [] then s else b)"

text \<open>\<^verbatim>\<open>x || 0\<close> on numbers.\<close>

definition or_zero :: "real option \<Rightarrow> real" where
  "or_zero x = (case x of None \<Rightarrow> 0 | Some v \<Rightarrow> v)"

text \<open>\<^verbatim>\<open>a.includes(b)\<close>: \<open>b\<close> occurs in \<open>a\<close> as a contiguous piece.\<close>

fun includes_str :: "'a list \<Rightarrow> 'a list \<Rightarrow> bool" where
  "includes_str [] b \<longleftrightarrow> b = []"
| "includes_str (x # xs) b \<longleftrightarrow> take (length b) (x # xs) = b \<or> includes_str xs b"

text \<open>Comparisons with a year that may be NaN.\<close>

definition year_ge :: "int option \<Rightarrow> int \<Rightarrow> bool" where
  "year_ge y n \<longleftrightarrow> (case y of None \<Rightarrow> False | Some v \<Rightarrow> v \<ge> n)"

definition year_le :: "int option \<Rightarrow> int \<Rightarrow> bool" where
  "year_le y n \<longleftrightarrow> (case y of None \<Rightarrow> False | Some v \<Rightarrow> v \<le> n)"

definition year_lt :: "int option \<Rightarrow> int \<Rightarrow> bool" where
  "year_lt y n \<longleftrightarrow> (case y of None \<Rightarrow> False | Some v \<Rightarrow> v < n)"

subsection \<open>Scoring\<close>

text \<open>\<^verbatim>\<open>s.replace(/[^\w\s]/g, '')\<close>\<close>

definition strip_punctuation :: "jsstring \<Rightarrow> jsstring" where
  "strip_punctuation s = replace_all (Cls (\<lambda>c. \<not> (isWord c \<or> isSpace c))) [] s"

definition cleanOriginalTitle :: "js_env \<Rightarrow> jsstring \<Rightarrow> jsstring" where
  "cleanOriginalTitle env originalTitle = strip_punctuation (toLowerCase env originalTitle)"

definition cleanResultTitle :: "js_env \<Rightarrow> candidate \<Rightarrow> jsstring" where
  "cleanResultTitle env result =
     strip_punctuation (toLowerCase env (or_str (or_else (r_title result) (r_name result)) []))"

text \<open>
  The score of a candidate is a sum; its summands are named here in the order of the
  source. The branch \<open>None\<close> of the similarity stands for a NaN that
  \<^verbatim>\<open>levenshteinDistance\<close> never produces.
\<close>

definition title_points :: "js_env \<Rightarrow> jsstring \<Rightarrow> candidate \<Rightarrow> real" where
  "title_points env originalTitle result =
     (if cleanResultTitle env result = cleanOriginalTitle env originalTitle then 100
      else if includes_str (cleanResultTitle env result) (cleanOriginalTitle env originalTitle)
              \<or> includes_str (cleanOriginalTitle env originalTitle) (cleanResultTitle env result) then 80
      else (case calculateStringSimilarity (cleanOriginalTitle env originalTitle) (cleanResultTitle env result) of
              Some similarity \<Rightarrow> similarity * 60
            | None \<Rightarrow> 0))"

definition releaseYear :: "js_env \<Rightarrow> candidate \<Rightarrow> int option" where
  "releaseYear env result =
     fullYear env (or_str (or_else (r_release_date result) (r_first_air_date result)) (js ''1900''))"

definition recency_points :: "js_env \<Rightarrow> jsstring \<Rightarrow> candidate \<Rightarrow> real" where
  "recency_points env countryCode result =
     (if countryCode = js ''PH'' then
        (if year_ge (releaseYear env result) (currentYear env - 2) then 30
         else if year_ge (releaseYear env result) (currentYear env - 5) then 20
         else if year_ge (releaseYear env result) 2010 then 10
         else 0)
      else
        (if year_ge (releaseYear env result) 2000 \<and> year_le (releaseYear env result) (currentYear env - 1)
         then 20 else 0))"

definition region_points :: "jsstring \<Rightarrow> candidate \<Rightarrow> real" where
  "region_points countryCode result =
     (case r_origin_country result of
        None \<Rightarrow> 0
      | Some countries \<Rightarrow> if countryCode \<in> set countries then 25 else 0)"

definition popularity_points :: "candidate \<Rightarrow> real" where
  "popularity_points result = min (or_zero (r_popularity result) * (1 / 10)) 10"

definition rating_points :: "candidate \<Rightarrow> real" where
  "rating_points result = min (or_zero (r_vote_average result) * 2) 20"

definition stale_penalty :: "js_env \<Rightarrow> candidate \<Rightarrow> real" where
  "stale_penalty env result =
     (if year_lt (releaseYear env result) 1990 \<and> or_zero (r_vote_average result) < 7 then 20 else 0)"

definition similarity_score :: "js_env \<Rightarrow> jsstring \<Rightarrow> jsstring \<Rightarrow> candidate \<Rightarrow> real" where
  "similarity_score env originalTitle countryCode result =
     0 + title_points env originalTitle result
       + recency_points env countryCode result
       + region_points countryCode result
       + popularity_points result
       + rating_points result
       - stale_penalty env result"

subsection \<open>Choosing the best candidate\<close>

definition filteredResults :: "candidate list \<Rightarrow> jsstring \<Rightarrow> candidate list" where
  "filteredResults results mediaType =
     (if mediaType \<noteq> js ''multi'' then
        (let filtered = filter (\<lambda>r. or_str (r_media_type r) mediaType = mediaType) results
         in if length filtered = 0 then results else filtered)
      else results)"

definition scoredResults :: "js_env \<Rightarrow> candidate list \<Rightarrow> jsstring \<Rightarrow> jsstring \<Rightarrow> jsstring
    \<Rightarrow> (candidate \<times> real) list" where
  "scoredResults env results originalTitle countryCode mediaType =
     map (\<lambda>result. (result, similarity_score env originalTitle countryCode result))
       (filteredResults results mediaType)"

text \<open>
  \<^verbatim>\<open>sort((a, b) => b.similarity_score - a.similarity_score)\<close> is a stable sort by
  descending score; \<^verbatim>\<open>scoredResults[0]\<close> is absent on an empty array. The scored
  candidate \<^verbatim>\<open>{...result, similarity_score}\<close> is the pair of the candidate and its score.
\<close>

definition findBestMatch :: "js_env \<Rightarrow> candidate list \<Rightarrow> jsstring \<Rightarrow> jsstring \<Rightarrow> jsstring
    \<Rightarrow> (candidate \<times> real) option" where
  "findBestMatch env results originalTitle countryCode mediaType =
     (if length results = 0 then None
      else (case sort_key (\<lambda>scored. - snd scored)
                   (scoredResults env results originalTitle countryCode mediaType) of
              [] \<Rightarrow> None
            | best # _ \<Rightarrow> Some best))"

subsection \<open>The search cascade\<close>

text \<open>
  The metadata API is reached through \<^verbatim>\<open>axios.get\<close>. A request is the endpoint
  \<^verbatim>\<open>/search/<mediaType>\<close> with the query and the optional region (the other parameters
  are constants). The call is rejected (it throws), or it resolves to a body without
  \<^verbatim>\<open>data\<close> (reading \<^verbatim>\<open>response.data.results\<close> then throws a TypeError), or to a body
  whose \<^verbatim>\<open>results\<close> may be absent.
\<close>

record request =
  endpoint :: jsstring
  query :: jsstring
  region :: "jsstring option"

datatype response = Rejected | NoData | Data "candidate list option"

datatype exn = AxiosError | TypeError

text \<open>
  The effects are a trace of events. The API may answer the same request differently
  each time: its answer depends on how many calls were made before.
\<close>

datatype event = Get request | Wait nat

fun is_Get :: "event \<Rightarrow> bool" where
  "is_Get (Get rq) = True"
| "is_Get (Wait d) = False"

type_synonym api = "nat \<Rightarrow> request \<Rightarrow> response"

definition calls :: "event list \<Rightarrow> nat" where
  "calls tr = length (filter is_Get tr)"

definition axios_get :: "api \<Rightarrow> request \<Rightarrow> event list \<Rightarrow> response \<times> event list" where
  "axios_get api rq tr = (api (calls tr) rq, tr @ [Get rq])"

definition wait :: "nat \<Rightarrow> event list \<Rightarrow> event list" where
  "wait d tr = tr @ [Wait d]"

record tmdb_data =
  tmdb_id :: int
  tmdb_title :: "jsstring option"
  tmdb_release_date :: "jsstring option"
  tmdb_media_type :: jsstring
  search_strategy_used :: nat

record strategy =
  s_query :: jsstring
  s_region :: "jsstring option"

text \<open>\<^verbatim>\<open>s.split(' ')\<close> and \<^verbatim>\<open>parts.join(' ')\<close>.\<close>

fun split_on :: "'a \<Rightarrow> 'a list \<Rightarrow> 'a list list" where
  "split_on sep [] = [[]]"
| "split_on sep (c # cs) =
     (if c = sep then [] # split_on sep cs
      else (case split_on sep cs of [] \<Rightarrow> [[c]] | w # ws \<Rightarrow> (c # w) # ws))"

fun join :: "'a list \<Rightarrow> 'a list list \<Rightarrow> 'a list" where
  "join sep [] = []"
| "join sep [w] = w"
| "join sep (w # ws) = w @ sep @ join sep ws"

definition searchStrategies :: "jsstring \<Rightarrow> jsstring \<Rightarrow> strategy list" where
  "searchStrategies cleanTitle countryCode =
     [\<lparr>s_query = cleanTitle, s_region = Some countryCode\<rparr>,
      \<lparr>s_query = cleanTitle, s_region = None\<rparr>,
      \<lparr>s_query = removeCountryIndicators cleanTitle, s_region = None\<rparr>,
      \<lparr>s_query = join (js '' '') (take 3 (split_on 0x20 cleanTitle)), s_region = None\<rparr>]"

text \<open>The parameters of the call: the region is sent only when it is truthy.\<close>

definition searchParams :: "jsstring \<Rightarrow> strategy \<Rightarrow> request" where
  "searchParams mediaType strategy =
     \<lparr>endpoint = mediaType, query = s_query strategy,
      region = (if truthy (s_region strategy) then s_region strategy else None)\<rparr>"

text \<open>
  The body of the inner \<^verbatim>\<open>try\<close> for strategy number \<open>i\<close> (counted from 0): \<open>Inl\<close>
  is an exception, \<open>Inr (Some d)\<close> the \<^verbatim>\<open>return\<close> of a match, \<open>Inr None\<close> falling
  out of the block. \<open>tmdb_result\<close> is the object that is returned.
\<close>

definition tmdb_result :: "candidate \<Rightarrow> jsstring \<Rightarrow> nat \<Rightarrow> tmdb_data" where
  "tmdb_result bestMatch mediaType i =
     \<lparr>tmdb_id = r_id bestMatch,
      tmdb_title = or_else (r_title bestMatch) (r_name bestMatch),
      tmdb_release_date = or_else (r_release_date bestMatch) (r_first_air_date bestMatch),
      tmdb_media_type = or_str (r_media_type bestMatch) mediaType,
      search_strategy_used = i + 1\<rparr>"

definition try_strategy :: "js_env \<Rightarrow> api \<Rightarrow> jsstring \<Rightarrow> jsstring \<Rightarrow> jsstring \<Rightarrow> nat \<Rightarrow> strategy
    \<Rightarrow> event list \<Rightarrow> (exn + tmdb_data option) \<times> event list" where
  "try_strategy env api title mediaType countryCode i strategy tr =
     (case axios_get api (searchParams mediaType strategy) tr of
        (Rejected, tr') \<Rightarrow> (Inl AxiosError, tr')
      | (NoData, tr') \<Rightarrow> (Inl TypeError, tr')
      | (Data None, tr') \<Rightarrow> (Inr None, tr')
      | (Data (Some results), tr') \<Rightarrow>
          if length results > 0 then
            (case findBestMatch env results title countryCode mediaType of
               None \<Rightarrow> (Inr None, tr')
             | Some (bestMatch, score) \<Rightarrow> (Inr (Some (tmdb_result bestMatch mediaType i)), tr'))
          else (Inr None, tr'))"

text \<open>
  The \<^verbatim>\<open>for\<close> loop over the strategies from number \<open>i\<close> on: the \<^verbatim>\<open>catch\<close> of the
  inner \<^verbatim>\<open>try\<close> logs the exception and goes on to the pacing delay, as a block
  without a match does; after the last strategy the function returns \<^verbatim>\<open>null\<close>.
\<close>

fun strategy_loop :: "js_env \<Rightarrow> api \<Rightarrow> jsstring \<Rightarrow> jsstring \<Rightarrow> jsstring \<Rightarrow> nat \<Rightarrow> strategy list
    \<Rightarrow> event list \<Rightarrow> (exn + tmdb_data option) \<times> event list" where
  "strategy_loop env api title mediaType countryCode i [] tr = (Inr None, tr)"
| "strategy_loop env api title mediaType countryCode i (strategy # rest) tr =
     (case try_strategy env api title mediaType countryCode i strategy tr of
        (Inr (Some found), tr') \<Rightarrow> (Inr (Some found), tr')
      | (Inr None, tr') \<Rightarrow> strategy_loop env api title mediaType countryCode (i + 1) rest (wait 100 tr')
      | (Inl strategyError, tr') \<Rightarrow> strategy_loop env api title mediaType countryCode (i + 1) rest (wait 100 tr'))"

text \<open>
  \<^verbatim>\<open>searchTMDB\<close>: without an API key it returns \<^verbatim>\<open>null\<close> at once; the outer
  \<^verbatim>\<open>catch\<close> turns any exception of the body into \<^verbatim>\<open>null\<close>.
\<close>

definition searchTMDB :: "js_env \<Rightarrow> jsstring option \<Rightarrow> api \<Rightarrow> jsstring \<Rightarrow> jsstring \<Rightarrow> jsstring
    \<Rightarrow> event list \<Rightarrow> (exn + tmdb_data option) \<times> event list" where
  "searchTMDB env tmdbApiKey api title mediaType countryCode tr =
     (if \<not> truthy tmdbApiKey then (Inr None, tr)
      else (case strategy_loop env api title mediaType countryCode 0
                   (searchStrategies (cleanTitleForSearch title) countryCode) tr of
              (Inl error, tr') \<Rightarrow> (Inr None, tr')
            | (Inr result, tr') \<Rightarrow> (Inr result, tr')))"

subsection \<open>Enrichment\<close>

text \<open>An entry of the extracted list, and an entry with the match fields spread into it.\<close>

record entry =
  rank :: nat
  title :: jsstring
  category :: jsstring
  poster :: jsstring
  country :: jsstring
  platform :: jsstring

record enriched = entry +
  tmdb :: "tmdb_data option"

definition spread :: "entry \<Rightarrow> tmdb_data option \<Rightarrow> enriched" where
  "spread item tmdbData = entry.extend item (enriched.fields tmdbData)"

text \<open>
  The loop of \<^verbatim>\<open>enrichWithTMDB\<close>. It has no \<^verbatim>\<open>try\<close>: an exception of
  \<^verbatim>\<open>searchTMDB\<close> would end it.
\<close>

fun enrich_loop :: "js_env \<Rightarrow> jsstring option \<Rightarrow> api \<Rightarrow> jsstring \<Rightarrow> entry list \<Rightarrow> enriched list
    \<Rightarrow> event list \<Rightarrow> (exn + enriched list) \<times> event list" where
  "enrich_loop env key api countryCode [] enrichedItems tr = (Inr enrichedItems, tr)"
| "enrich_loop env key api countryCode (item # items) enrichedItems tr =
     (let mediaType = (if category item = js ''Movie'' then js ''movie'' else js ''tv'')
      in case searchTMDB env key api (title item) mediaType countryCode tr of
           (Inl e, tr1) \<Rightarrow> (Inl e, tr1)
         | (Inr (Some tmdbData), tr1) \<Rightarrow>
             enrich_loop env key api countryCode items
               (enrichedItems @ [spread item (Some tmdbData)]) (wait 200 tr1)
         | (Inr None, tr1) \<Rightarrow>
             (case searchTMDB env key api (title item) (js ''multi'') countryCode tr1 of
                (Inl e, tr2) \<Rightarrow> (Inl e, tr2)
              | (Inr multiSearchData, tr2) \<Rightarrow>
                  enrich_loop env key api countryCode items
                    (enrichedItems @ [spread item multiSearchData]) (wait 200 tr2)))"

definition enrichWithTMDB :: "js_env \<Rightarrow> jsstring option \<Rightarrow> api \<Rightarrow> entry list \<Rightarrow> jsstring
    \<Rightarrow> event list \<Rightarrow> (exn + enriched list) \<times> event list" where
  "enrichWithTMDB env tmdbApiKey api items countryCode tr =
     (if \<not> truthy tmdbApiKey then (Inr (map (\<lambda>item. spread item None) items), tr)
      else enrich_loop env tmdbApiKey api countryCode items [] tr)"

section \<open>The list extractor\<close>

text \<open>
  \<^verbatim>\<open>parseNetflixTop10\<close> loads the markup with cheerio and queries the document with
  selectors. The document is a parameter of the model: a record of what each selector
  expression of the source selects, in document order.

  A link found by \<^verbatim>\<open>find('td.table-td a[href*="/title/"]')\<close> below a sibling of the
  section header: its text, the texts of the \<^verbatim>\<open>td\<close> cells of its closest row (none
  when it has no row), and the \<^verbatim>\<open>src\<close> and \<^verbatim>\<open>data-src\<close> attributes of the first
  image of that row (\<open>None\<close> when the row has no image).
\<close>

record table_link =
  link_text :: jsstring
  row_cells :: "jsstring list"
  row_img :: "(jsstring option \<times> jsstring option) option"

text \<open>
  A link found below an ancestor of the header: its text and
  \<^verbatim>\<open>$link.closest('tr').index()\<close>, which is \<open>-1\<close> when there is no row.
\<close>

record ancestor_link =
  a_text :: jsstring
  a_row_index :: int

text \<open>
  What is seen from a section header that was found: for each hop of
  \<^verbatim>\<open>$nextSibling = $nextSibling.next()\<close> that selects something, the links below it; for
  each \<^verbatim>\<open>.parent()\<close> level that selects something, the links below it; and
  \<^verbatim>\<open>$sectionHeader.index()\<close>.
\<close>

record header_view =
  sibling_links :: "table_link list list"
  ancestor_links :: "ancestor_link list list"
  header_index :: int

text \<open>
  A section: its header, \<open>None\<close> when neither selector list of \<^verbatim>\<open>parseTableData\<close>
  selects anything; and for \<^verbatim>\<open>parseSectionBased\<close>, \<open>None\<close> when no heading passes its
  filter, else for each sibling after the first such heading the texts of the links
  \<^verbatim>\<open>a[href*="/title/"]\<close> below it.
\<close>

record section_view =
  header :: "header_view option"
  section_siblings :: "jsstring list list option"

text \<open>
  The document: the two sections, the texts of \<^verbatim>\<open>$('td.table-td a[href*="/title/"]')\<close>
  and of \<^verbatim>\<open>$('a[href*="/title/"]')\<close>, and \<^verbatim>\<open>$.text()\<close>.
\<close>

record page =
  tv_shows :: section_view
  movies :: section_view
  table_title_links :: "jsstring list"
  all_title_links :: "jsstring list"
  page_text :: jsstring

text \<open>
  \<^verbatim>\<open>parseNetflixTop10\<close> calls \<^verbatim>\<open>parseTableData\<close> with the section types
  \<^verbatim>\<open>'TV Shows'\<close> and \<^verbatim>\<open>'Movies'\<close> only.
\<close>

datatype section_type = TV_Shows | Movies

definition section_of :: "page \<Rightarrow> section_type \<Rightarrow> section_view" where
  "section_of doc sectionType = (case sectionType of TV_Shows \<Rightarrow> tv_shows doc | Movies \<Rightarrow> movies doc)"

definition category_of :: "section_type \<Rightarrow> jsstring" where
  "category_of sectionType = (if sectionType = TV_Shows then js ''TV Show'' else js ''Movie'')"

definition new_entry :: "nat \<Rightarrow> jsstring \<Rightarrow> jsstring \<Rightarrow> jsstring \<Rightarrow> entry" where
  "new_entry rank' title' category' poster' =
     \<lparr>rank = rank', title = title', category = category', poster = poster',
      country = js ''Philippines'', platform = js ''Netflix''\<rparr>"

text \<open>\<^verbatim>\<open>parseInt\<close> of a string of decimal digits.\<close>

definition decimal :: "jsstring \<Rightarrow> nat" where
  "decimal s = foldl (\<lambda>n c. 10 * n + unat (c - 0x30)) 0 s"

text \<open>\<^verbatim>\<open>results.find(r => r.rank === rank)\<close> finds nothing.\<close>

definition rank_free :: "entry list \<Rightarrow> nat \<Rightarrow> bool" where
  "rank_free results rank' \<longleftrightarrow> find (\<lambda>r. rank r = rank') results = None"

subsection \<open>Stage 1: the table after the header\<close>

text \<open>
  The rank of a row: the first cell whose trimmed text passes \<^verbatim>\<open>/^\d+$/\<close> and is a
  number from 1 to 10.
\<close>

fun row_rank :: "jsstring list \<Rightarrow> nat option" where
  "row_rank [] = None"
| "row_rank (td # cells) =
     (let cellText = trim td
      in if first_match (Seq (plus (Cls isDigit)) Eol) cellText \<noteq> None
            \<and> decimal cellText \<ge> 1 \<and> decimal cellText \<le> 10
         then Some (decimal cellText)
         else row_rank cells)"

definition row_poster :: "table_link \<Rightarrow> jsstring" where
  "row_poster link =
     (case row_img link of
        None \<Rightarrow> []
      | Some (src, data_src) \<Rightarrow> or_str (or_else src data_src) [])"

text \<open>\<^verbatim>\<open>titleLinks.each((index, element) => ...)\<close> on the links of the sibling, from \<open>index\<close> on.\<close>

fun scan_table_links :: "jsstring \<Rightarrow> nat \<Rightarrow> table_link list \<Rightarrow> entry list \<Rightarrow> entry list" where
  "scan_table_links category' index [] results = results"
| "scan_table_links category' index (link # links) results =
     (let title' = trim (link_text link)
      in if title' = [] then scan_table_links category' (index + 1) links results
         else
           (let rank' = (case row_rank (row_cells link) of Some num \<Rightarrow> num | None \<Rightarrow> index + 1)
            in if rank' \<ge> 1 \<and> rank' \<le> 10 \<and> rank_free results rank'
               then scan_table_links category' (index + 1) links
                      (results @ [new_entry rank' title' category' (row_poster link)])
               else scan_table_links category' (index + 1) links results))"

text \<open>
  The walk over the siblings: at most 10 of them are looked at, and the first one with
  links is scanned.
\<close>

definition scan_siblings :: "jsstring \<Rightarrow> table_link list list \<Rightarrow> entry list" where
  "scan_siblings category' siblings =
     (case find (\<lambda>titleLinks. length titleLinks > 0) (take 10 siblings) of
        None \<Rightarrow> []
      | Some titleLinks \<Rightarrow> scan_table_links category' 0 titleLinks [])"

text \<open>The links of an ancestor, at \<open>level\<close> 0, 1 or 2 above the header.\<close>

fun scan_ancestor_links :: "jsstring \<Rightarrow> int \<Rightarrow> nat \<Rightarrow> ancestor_link list \<Rightarrow> entry list \<Rightarrow> entry list" where
  "scan_ancestor_links category' headerPosition level [] results = results"
| "scan_ancestor_links category' headerPosition level (link # links) results =
     (let title' = trim (a_text link)
      in if title' = [] \<or> length results \<ge> 10
         then scan_ancestor_links category' headerPosition level links results
         else if a_row_index link > headerPosition \<or> level > 0
         then scan_ancestor_links category' headerPosition level links
                (results @ [new_entry (length results + 1) title' category' []])
         else scan_ancestor_links category' headerPosition level links results)"

fun scan_ancestors :: "jsstring \<Rightarrow> int \<Rightarrow> nat \<Rightarrow> ancestor_link list list \<Rightarrow> entry list" where
  "scan_ancestors category' headerPosition level [] = []"
| "scan_ancestors category' headerPosition level (titleLinks # ancestors) =
     (if length titleLinks > 0
      then scan_ancestor_links category' headerPosition level titleLinks []
      else scan_ancestors category' headerPosition (level + 1) ancestors)"

text \<open>Without a header: the first 10 table links of the document, ranked by position.\<close>

fun scan_fallback :: "jsstring \<Rightarrow> nat \<Rightarrow> jsstring list \<Rightarrow> entry list" where
  "scan_fallback category' index [] = []"
| "scan_fallback category' index (text' # links) =
     (let title' = trim text'
      in if title' \<noteq> [] then new_entry (index + 1) title' category' [] # scan_fallback category' (index + 1) links
         else scan_fallback category' (index + 1) links)"

definition table_stage :: "page \<Rightarrow> section_type \<Rightarrow> entry list" where
  "table_stage doc sectionType =
     (case header (section_of doc sectionType) of
        Some sectionHeader \<Rightarrow>
          (let results = scan_siblings (category_of sectionType) (sibling_links sectionHeader)
           in if length results = 0
              then scan_ancestors (category_of sectionType) (header_index sectionHeader) 0
                     (take 3 (ancestor_links sectionHeader))
              else results)
      | None \<Rightarrow> scan_fallback (category_of sectionType) 0 (take 10 (table_title_links doc)))"

subsection \<open>Stage 2: the siblings of a section heading\<close>

fun collect_section_links :: "jsstring \<Rightarrow> jsstring list \<Rightarrow> entry list \<Rightarrow> entry list" where
  "collect_section_links category' [] results = results"
| "collect_section_links category' (text' # links) results =
     (let title' = trim text'
      in if title' \<noteq> [] \<and> length results < 10
         then collect_section_links category' links
                (results @ [new_entry (length results + 1) title' category' []])
         else collect_section_links category' links results)"

definition parseSectionBased :: "page \<Rightarrow> section_type \<Rightarrow> entry list" where
  "parseSectionBased doc sectionType =
     (case section_siblings (section_of doc sectionType) of
        None \<Rightarrow> []
      | Some siblings \<Rightarrow>
          fold (collect_section_links (category_of sectionType)) (take 10 siblings) [])"

subsection \<open>Stage 3: numbered items in the text\<close>

text \<open>
  The pattern \<^verbatim>\<open>TOP\s*10\s*<keyword>([\s\S]*?)(?:TOP\s*10|$)\<close> with the \<^verbatim>\<open>i\<close> flag, in
  three parts; the text of the second part is \<^verbatim>\<open>sectionMatch[1]\<close>.
\<close>

definition sectionPattern :: "section_type \<Rightarrow> re list" where
  "sectionPattern sectionType =
     [Seq (lit_i ''TOP'') (Seq (Star (Cls isSpace)) (Seq (lit_i ''10'') (Seq (Star (Cls isSpace))
        (lit_i (if sectionType = TV_Shows then ''TV Shows'' else ''Movies''))))),
      LazyStar (Cls (\<lambda>c. True)),
      Alt (Seq (lit_i ''TOP'') (Seq (Star (Cls isSpace)) (lit_i ''10''))) Eol]"

text \<open>\<^verbatim>\<open>/(\d+)\.?\s*([^\d\n]{2,100}?)(?=\d+\.|\d+\s|$)/g\<close>\<close>

definition numberedPattern :: re where
  "numberedPattern =
     Seq (plus (Cls isDigit)) (Seq (opt (chr CHR ''.'')) (Seq (Star (Cls isSpace))
       (Seq (Cls (\<lambda>c. \<not> isDigit c \<and> c \<noteq> 0xA)) (Seq (Cls (\<lambda>c. \<not> isDigit c \<and> c \<noteq> 0xA))
       (Seq (LazyUpTo 98 (Cls (\<lambda>c. \<not> isDigit c \<and> c \<noteq> 0xA)))
       (Ahead (any_of [Seq (plus (Cls isDigit)) (chr CHR ''.''),
                       Seq (plus (Cls isDigit)) (Cls isSpace),
                       Eol])))))))"

text \<open>\<^verbatim>\<open>/(\d+)\.?\s*(.*)/\<close> in four parts, the first and the last being the groups.\<close>

definition itemPattern :: "re list" where
  "itemPattern =
     [plus (Cls isDigit), opt (chr CHR ''.''), Star (Cls isSpace), Star (Cls (\<lambda>c. \<not> isLineTerminator c))]"

text \<open>
  The clean-up of a title: \<^verbatim>\<open>/^\W+/\<close>, \<^verbatim>\<open>/\d+\s*d\s*$/\<close>, a run of dashes
  (U+2013 or the hyphen) before the end, \<^verbatim>\<open>split(/\s{3,}/)[0]\<close> and \<^verbatim>\<open>trim()\<close>.
\<close>

definition clean_item_title :: "jsstring \<Rightarrow> jsstring" where
  "clean_item_title title' =
     trim
      (before_match (first_match (Seq (Cls isSpace) (Seq (Cls isSpace) (Seq (Cls isSpace) (Star (Cls isSpace))))))
      (replace_first (Seq (plus (Cls (\<lambda>c. c = 0x2013 \<or> c = 0x2D))) (Seq (Star (Cls isSpace)) Eol)) []
      (replace_first (Seq (plus (Cls isDigit)) (Seq (Star (Cls isSpace)) (Seq (chr CHR ''d'')
                        (Seq (Star (Cls isSpace)) Eol)))) []
      (replace_start (plus (Cls (\<lambda>c. \<not> isWord c))) [] title'))))"

definition numbered_item :: "jsstring \<Rightarrow> jsstring \<Rightarrow> entry list" where
  "numbered_item category' item =
     (case leftmost (first_groups itemPattern) item of
        Some [digits, dot, spaces, rest] \<Rightarrow>
          (let rank' = decimal digits;
               title' = clean_item_title (trim rest)
           in if title' \<noteq> [] \<and> length title' > 1 \<and> length title' < 100 \<and> rank' \<ge> 1 \<and> rank' \<le> 10
              then [new_entry rank' title' category' []]
              else [])
      | _ \<Rightarrow> [])"

definition parseTextBasedAggressive :: "page \<Rightarrow> section_type \<Rightarrow> entry list" where
  "parseTextBasedAggressive doc sectionType =
     (case leftmost (first_groups (sectionPattern sectionType)) (page_text doc) of
        Some [marker, sectionText, stop] \<Rightarrow>
          concat (map (numbered_item (category_of sectionType)) (match_all numberedPattern sectionText))
      | _ \<Rightarrow> [])"

subsection \<open>Merging, the final pass and the gap fill\<close>

text \<open>An item of a later stage is added when no entry holds its rank.\<close>

fun merge_results :: "entry list \<Rightarrow> entry list \<Rightarrow> entry list" where
  "merge_results results [] = results"
| "merge_results results (item # items) =
     (if rank_free results (rank item) then merge_results (results @ [item]) items
      else merge_results results items)"

text \<open>The final pass over the sorted results, with the set of ranks seen.\<close>

fun final_pass :: "entry list \<Rightarrow> entry list \<Rightarrow> nat set \<Rightarrow> entry list" where
  "final_pass [] finalResults seenRanks = finalResults"
| "final_pass (item # items) finalResults seenRanks =
     (if rank item \<notin> seenRanks \<and> rank item \<ge> 1 \<and> rank item \<le> 10
      then final_pass items (finalResults @ [item]) (insert (rank item) seenRanks)
      else final_pass items finalResults seenRanks)"

text \<open>
  \<^verbatim>\<open>fillMissingRanks\<close>: each link with a text takes the lowest rank from 1 to 10 that is
  not in \<open>existingRanks\<close>; the scan stops when there are 10 results.
\<close>

fun fill_links :: "jsstring \<Rightarrow> jsstring list \<Rightarrow> entry list \<Rightarrow> nat set \<Rightarrow> entry list" where
  "fill_links category' [] currentResults existingRanks = currentResults"
| "fill_links category' (text' # links) currentResults existingRanks =
     (let title' = trim text'
      in if title' = [] then fill_links category' links currentResults existingRanks
         else
           (case find (\<lambda>rank'. rank' \<notin> existingRanks) [1..<11] of
              Some rank' \<Rightarrow>
                (if length (currentResults @ [new_entry rank' title' category' []]) \<ge> 10
                 then currentResults @ [new_entry rank' title' category' []]
                 else fill_links category' links (currentResults @ [new_entry rank' title' category' []])
                        (insert rank' existingRanks))
            | None \<Rightarrow>
                (if length currentResults \<ge> 10 then currentResults
                 else fill_links category' links currentResults existingRanks)))"

definition fillMissingRanks :: "page \<Rightarrow> entry list \<Rightarrow> jsstring \<Rightarrow> entry list" where
  "fillMissingRanks doc currentResults category' =
     fill_links category' (all_title_links doc) currentResults (set (map rank currentResults))"

subsection \<open>The extractor\<close>

text \<open>
  \<^verbatim>\<open>parseTableData\<close>, in two parts: the results accumulated by the stages, each later
  stage running while there are fewer than 8 results; then the sort by rank, the final
  pass and the gap fill.
\<close>

definition accumulated :: "page \<Rightarrow> section_type \<Rightarrow> entry list" where
  "accumulated doc sectionType =
     (let results1 = table_stage doc sectionType;
          results2 = (if length results1 < 8
                      then merge_results results1 (parseSectionBased doc sectionType) else results1);
          results3 = (if length results2 < 8
                      then merge_results results2 (parseTextBasedAggressive doc sectionType) else results2)
      in results3)"

definition parseTableData :: "page \<Rightarrow> section_type \<Rightarrow> entry list" where
  "parseTableData doc sectionType =
     (let finalResults = final_pass (sort_key rank (accumulated doc sectionType)) [] {}
      in if length finalResults < 10
         then fillMissingRanks doc finalResults (category_of sectionType)
         else finalResults)"


section \<open>Notions used in the statements\<close>

text \<open>
  The candidates an answer of the API holds, the request of strategy number \<open>j\<close>, an
  answer with each failure replaced by an empty result list, and the trace of \<open>k\<close>
  strategies that found nothing.
\<close>

definition candidates_of :: "response \<Rightarrow> candidate list" where
  "candidates_of resp = (case resp of Data (Some results) \<Rightarrow> results | _ \<Rightarrow> [])"

definition strategy_request :: "jsstring \<Rightarrow> jsstring \<Rightarrow> jsstring \<Rightarrow> nat \<Rightarrow> request" where
  "strategy_request t mediaType countryCode j =
     searchParams mediaType (searchStrategies (cleanTitleForSearch t) countryCode ! j)"

definition as_empty :: "response \<Rightarrow> response" where
  "as_empty resp = (case resp of Rejected \<Rightarrow> Data (Some []) | NoData \<Rightarrow> Data (Some []) | Data d \<Rightarrow> Data d)"

definition paced :: "jsstring \<Rightarrow> strategy list \<Rightarrow> nat \<Rightarrow> event list" where
  "paced mediaType ss k = concat (map (\<lambda>j. [Get (searchParams mediaType (ss ! j)), Wait 100]) [0..<k])"

text \<open>The media type \<^verbatim>\<open>enrichWithTMDB\<close> derives from the category of an entry.\<close>

definition item_mediaType :: "entry \<Rightarrow> jsstring" where
  "item_mediaType item = (if category item = js ''Movie'' then js ''movie'' else js ''tv'')"

text \<open>What one round of the loop does with an item: the entry it pushes and the trace after the delay.\<close>

definition enrich_item :: "js_env \<Rightarrow> jsstring option \<Rightarrow> api \<Rightarrow> jsstring \<Rightarrow> entry \<Rightarrow> event list
    \<Rightarrow> enriched \<times> event list" where
  "enrich_item env key api countryCode item tr =
     (case searchTMDB env key api (title item) (item_mediaType item) countryCode tr of
        (Inr (Some tmdbData), tr1) \<Rightarrow> (spread item (Some tmdbData), wait 200 tr1)
      | (r, tr1) \<Rightarrow>
          (case searchTMDB env key api (title item) (js ''multi'') countryCode tr1 of
             (Inr multiSearchData, tr2) \<Rightarrow> (spread item multiSearchData, wait 200 tr2)
           | (l, tr2) \<Rightarrow> (spread item None, wait 200 tr2)))"

text \<open>
  Concrete inputs for the examples: a runtime whose \<^verbatim>\<open>toLowerCase\<close> lowers ASCII
  letters and which knows the years of the dates used, candidates, entries, and APIs that
  answer by the number of the call.
\<close>

definition demo_env :: js_env where
  "demo_env = \<lparr>toLowerCase = map (\<lambda>c. if 0x41 \<le> c \<and> c \<le> 0x5A then c + 0x20 else c),
               fullYear = (\<lambda>s. if s = js ''1900'' then Some 1900 else if s = js ''2023-05-01'' then Some 2023
                                else if s = js ''1985-03-01'' then Some 1985 else None),
               currentYear = 2026\<rparr>"

definition demo_show :: candidate where
  "demo_show = \<lparr>r_id = 42, r_title = None, r_name = Some (js ''My Show''),
                r_release_date = None, r_first_air_date = Some (js ''2023-05-01''),
                r_media_type = None, r_origin_country = Some [js ''PH''],
                r_popularity = Some 12, r_vote_average = Some 8\<rparr>"

definition demo_movie :: candidate where
  "demo_movie = \<lparr>r_id = 7, r_title = Some (js ''My Show''), r_name = None,
                r_release_date = Some (js ''2023-05-01''), r_first_air_date = None,
                r_media_type = Some (js ''movie''), r_origin_country = None,
                r_popularity = Some 3, r_vote_average = Some 6\<rparr>"

definition api_second :: api where
  "api_second n rq = (if n = 1 then Data (Some [demo_show]) else Rejected)"

definition api_down :: api where
  "api_down n rq = Rejected"

definition demo_entry1 :: entry where
  "demo_entry1 = \<lparr>rank = 1, title = js ''Up'', category = js ''TV Show'', poster = [],
                   country = js ''Philippines'', platform = js ''Netflix''\<rparr>"

definition demo_entry2 :: entry where
  "demo_entry2 = \<lparr>rank = 2, title = js ''Ma'', category = js ''TV Show'', poster = [],
                   country = js ''Philippines'', platform = js ''Netflix''\<rparr>"

definition api_ninth :: api where
  "api_ninth n rq = (if n = 8 then Data (Some [demo_show]) else Rejected)"





text \<open>
  For the extractor: a list whose ranks are distinct and from 1 to 10; a list whose ranks
  count up from 1; a list whose entries all have one category.
\<close>

definition ranks_ok :: "entry list \<Rightarrow> bool" where
  "ranks_ok rs \<longleftrightarrow> distinct (map rank rs) \<and> (\<forall>e\<in>set rs. 1 \<le> rank e \<and> rank e \<le> 10)"


definition all_category :: "jsstring \<Rightarrow> entry list \<Rightarrow> bool" where
  "all_category c rs \<longleftrightarrow> (\<forall>e\<in>set rs. category e = c)"

text \<open>
  Two documents. The first is the markup

  \<^verbatim>\<open><div><h3 class="table-th">TOP 10 TV Shows</h3><table>\<close>
  \<^verbatim>\<open><tr><td>1</td><td class="table-td"><a href="/title/s1/">S1</a></td></tr>\<close>
  \<^verbatim>\<open><tr><td>2</td><td class="table-td"><a href="/title/s2/">S2</a></td></tr>\<close>
  \<^verbatim>\<open><tr><td>3</td><td class="table-td"><a href="/title/s3/"></a></td></tr>\<close>
  \<^verbatim>\<open><tr><td>4</td><td class="table-td"><a href="/title/s4/">S4</a></td></tr>\<close>

  and so on to row 9 with the link S9, then \<^verbatim>\<open></table></div>\<close>: the header of the TV
  section is followed by a table of nine rows whose first cells hold the ranks 1 to 9 and
  whose second cells hold the links S1 to S9, except that the link of row 3 has no text.
  The second document has two such \<^verbatim>\<open>div\<close> elements, one after the other: the header
  \<^verbatim>\<open>TOP 10 TV Shows\<close> with a table of eight rows ranked 1 to 8 and the links T1 to T8, and
  the header \<^verbatim>\<open>TOP 10 Movies\<close> with a table of eight rows ranked 1 to 8 and the links F1
  to F8. The ancestors of a header are its \<^verbatim>\<open>div\<close>, the body and the root element; the
  filter of \<^verbatim>\<open>parseSectionBased\<close> looks for \<^verbatim>\<open>tvshows\<close> in the lower-cased text of a
  heading, which the header of the TV section does not contain.
\<close>

definition demo_row :: "char \<Rightarrow> char \<Rightarrow> table_link" where
  "demo_row p d = \<lparr>link_text = js [p, d], row_cells = [js [d], js [p, d]], row_img = None\<rparr>"

definition links_below :: "table_link list \<Rightarrow> ancestor_link list" where
  "links_below rows = map (\<lambda>(l, i). \<lparr>a_text = link_text l, a_row_index = int i\<rparr>) (zip rows [0..<length rows])"

definition gap_rows :: "table_link list" where
  "gap_rows = [demo_row CHR ''S'' CHR ''1'', demo_row CHR ''S'' CHR ''2'',
               \<lparr>link_text = [], row_cells = [js ''3'', []], row_img = None\<rparr>,
               demo_row CHR ''S'' CHR ''4'', demo_row CHR ''S'' CHR ''5'', demo_row CHR ''S'' CHR ''6'',
               demo_row CHR ''S'' CHR ''7'', demo_row CHR ''S'' CHR ''8'', demo_row CHR ''S'' CHR ''9'']"

definition page_gap :: page where
  "page_gap =
     \<lparr>tv_shows = \<lparr>header = Some \<lparr>sibling_links = [gap_rows],
                                   ancestor_links = [links_below gap_rows, links_below gap_rows, links_below gap_rows],
                                   header_index = 0\<rparr>,
                  section_siblings = None\<rparr>,
      movies = \<lparr>header = None, section_siblings = None\<rparr>,
      table_title_links = map link_text gap_rows,
      all_title_links = map link_text gap_rows,
      page_text = js ''TOP 10 TV Shows1S12S234S45S56S67S78S89S9''\<rparr>"

definition both_rows :: "char \<Rightarrow> table_link list" where
  "both_rows p = map (demo_row p) ''12345678''"

definition page_both :: page where
  "page_both =
     \<lparr>tv_shows = \<lparr>header = Some \<lparr>sibling_links = [both_rows CHR ''T''],
                                   ancestor_links = [links_below (both_rows CHR ''T''),
                                                     links_below (both_rows CHR ''T'') @ links_below (both_rows CHR ''F''),
                                                     links_below (both_rows CHR ''T'') @ links_below (both_rows CHR ''F'')],
                                   header_index = 0\<rparr>,
                  section_siblings = None\<rparr>,
      movies = \<lparr>header = Some \<lparr>sibling_links = [both_rows CHR ''F''],
                                   ancestor_links = [links_below (both_rows CHR ''F''),
                                                     links_below (both_rows CHR ''T'') @ links_below (both_rows CHR ''F''),
                                                     links_below (both_rows CHR ''T'') @ links_below (both_rows CHR ''F'')],
                                   header_index = 0\<rparr>,
                  section_siblings = Some [map link_text (both_rows CHR ''F'')]\<rparr>,
      table_title_links = map link_text (both_rows CHR ''T'' @ both_rows CHR ''F''),
      all_title_links = map link_text (both_rows CHR ''T'' @ both_rows CHR ''F''),
      page_text = js ''TOP 10 TV Shows1T12T23T34T45T56T67T78T8TOP 10 Movies1F12F23F34F45F56F67F78F8''\<rparr>"

text \<open>
  The normalisation of a title as the specification words it, step by step, to compare
  with \<^verbatim>\<open>cleanTitleForSearch\<close>. A leading number-and-dot prefix: one or more digits, a
  dot, and the white space after it.
\<close>

definition number_dot_prefix :: "jsstring \<Rightarrow> jsstring option" where
  "number_dot_prefix s =
     (if takeWhile isDigit s = [] then None
      else (case dropWhile isDigit s of
              [] \<Rightarrow> None
            | c # rest \<Rightarrow> if c = 0x2E then Some (dropWhile isSpace rest) else None))"

definition strip_number_prefix :: "jsstring \<Rightarrow> jsstring" where
  "strip_number_prefix t = (case number_dot_prefix t of None \<Rightarrow> t | Some rest \<Rightarrow> rest)"

text \<open>
  A parenthesised or bracketed group at the start of \<open>s\<close>: white space, the opening
  character, the text up to the first closing character (which must come before any line
  terminator), the closing character and the white space after it. The result is what
  follows the group.
\<close>

definition enclosed_group :: "jschar \<Rightarrow> jschar \<Rightarrow> jsstring \<Rightarrow> jsstring option" where
  "enclosed_group opening closing s =
     (case dropWhile isSpace s of
        [] \<Rightarrow> None
      | c # inner \<Rightarrow>
          if c \<noteq> opening then None
          else (case dropWhile (\<lambda>x. x \<noteq> closing \<and> \<not> isLineTerminator x) inner of
                  [] \<Rightarrow> None
                | d # rest \<Rightarrow> if d = closing then Some (dropWhile isSpace rest) else None))"

text \<open>
  "season n" at the start of \<open>s\<close>: the word in any case, one or more white space
  characters, one or more digits.
\<close>

definition word_number :: "string \<Rightarrow> jsstring \<Rightarrow> jsstring option" where
  "word_number w s =
     (if length w \<le> length s \<and> map canonicalize (take (length w) s) = map canonicalize (js w)
         \<and> takeWhile isSpace (drop (length w) s) \<noteq> []
         \<and> takeWhile isDigit (dropWhile isSpace (drop (length w) s)) \<noteq> []
      then Some (dropWhile isDigit (dropWhile isSpace (drop (length w) s)))
      else None)"

text \<open>A run of white space at the start of \<open>s\<close>.\<close>

definition whitespace_run :: "jsstring \<Rightarrow> jsstring option" where
  "whitespace_run s = (if takeWhile isSpace s = [] then None else Some (dropWhile isSpace s))"

text \<open>
  Removing each occurrence, from left to right, and replacing each run of white space by
  one space.
\<close>

definition remove_each :: "(jsstring \<Rightarrow> jsstring option) \<Rightarrow> jsstring \<Rightarrow> jsstring" where
  "remove_each occurrence s = gsub occurrence [] 0 s"

definition collapse_whitespace :: "jsstring \<Rightarrow> jsstring" where
  "collapse_whitespace s = gsub whitespace_run [0x20] 0 s"

definition normalization_steps :: "jsstring \<Rightarrow> jsstring" where
  "normalization_steps t =
     trim (collapse_whitespace
       (remove_each (word_number ''series'')
       (remove_each (word_number ''season'')
       (remove_each (enclosed_group 0x5B 0x5D)
       (remove_each (enclosed_group 0x28 0x29)
       (strip_number_prefix t))))))"

text \<open>
  Every white space character is a space that is not followed by white space; and a
  string that neither starts nor ends with white space.
\<close>

fun single_spaced :: "jsstring \<Rightarrow> bool" where
  "single_spaced [] \<longleftrightarrow> True"
| "single_spaced [c] \<longleftrightarrow> (isSpace c \<longrightarrow> c = 0x20)"
| "single_spaced (c # d # s) \<longleftrightarrow> (isSpace c \<longrightarrow> c = 0x20 \<and> \<not> isSpace d) \<and> single_spaced (d # s)"

definition trimmed :: "jsstring \<Rightarrow> bool" where
  "trimmed s \<longleftrightarrow> s = [] \<or> (\<not> isSpace (hd s) \<and> \<not> isSpace (last s))"

text \<open>The first element of a list of matches.\<close>

definition first_of :: "'a list \<Rightarrow> 'a option" where
  "first_of xs = (case xs of [] \<Rightarrow> None | x # _ \<Rightarrow> Some x)"

section \<open>Proofs: string similarity\<close>

lemma lev_Nil2: "lev xs [] = length xs" by (cases xs) auto

lemma lev_lower: "length ys \<le> lev xs ys + length xs \<and> length xs \<le> lev xs ys + length ys"
  by (induction xs ys rule: lev.induct) auto

lemma lev_lipschitz:
  "lev (x # xs) ys \<le> lev xs ys + 1 \<and> lev xs (y # ys) \<le> lev xs ys + 1
   \<and> lev xs ys \<le> lev (x # xs) ys + 1 \<and> lev xs ys \<le> lev xs (y # ys) + 1"
proof (induction "length xs + length ys" arbitrary: xs ys x y rule: less_induct)
  case less
  show ?case
  proof (cases xs)
    case Nil
    then show ?thesis using lev_lower[of ys "[x]"] by (cases ys) auto
  next
    case xs: (Cons a xs')
    show ?thesis
    proof (cases ys)
      case Nil
      then show ?thesis using xs lev_lower[of "[y]" xs] by (auto simp: lev_Nil2)
    next
      case ys: (Cons b ys')
      have A: "lev (a # xs') (b # ys') \<le> lev (a # xs') ys' + 1"
              "lev (a # xs') ys' \<le> lev (z # a # xs') ys' + 1"
              "lev (a # xs') ys' \<le> lev (a # xs') (b # ys') + 1" for z
        using less[of "a # xs'" ys' z b] xs ys by simp_all
      have B: "lev (a # xs') (b # ys') \<le> lev xs' (b # ys') + 1"
              "lev xs' (b # ys') \<le> lev xs' (z # b # ys') + 1"
              "lev xs' (b # ys') \<le> lev (a # xs') (b # ys') + 1" for z
        using less[of xs' "b # ys'" a z] xs ys by simp_all
      have E1: "lev (x # a # xs') (b # ys') =
          (if b = x then lev (a # xs') ys'
           else min (lev (a # xs') ys' + 1) (min (lev (a # xs') (b # ys') + 1) (lev (x # a # xs') ys' + 1)))"
        by (rule lev.simps(3))
      have E2: "lev (a # xs') (y # b # ys') =
          (if y = a then lev xs' (b # ys')
           else min (lev xs' (b # ys') + 1) (min (lev xs' (y # b # ys') + 1) (lev (a # xs') (b # ys') + 1)))"
        by (rule lev.simps(3))
      have C1: "lev (x # a # xs') (b # ys') \<le> lev (a # xs') (b # ys') + 1"
        unfolding E1 using A(3) by (auto simp: min_def simp del: lev.simps)
      have C2: "lev (a # xs') (y # b # ys') \<le> lev (a # xs') (b # ys') + 1"
        unfolding E2 using B(3) by (auto simp: min_def simp del: lev.simps)
      have C3: "lev (a # xs') (b # ys') \<le> lev (x # a # xs') (b # ys') + 1"
        unfolding E1 using A(1) A(2)[of x] by (auto simp: min_def simp del: lev.simps)
      have C4: "lev (a # xs') (b # ys') \<le> lev (a # xs') (y # b # ys') + 1"
        unfolding E2 using B(1) B(2)[of y] by (auto simp: min_def simp del: lev.simps)
      show ?thesis unfolding xs ys using C1 C2 C3 C4 by blast
    qed
  qed
qed

lemma edits_lev: "edits xs ys (lev xs ys)"
proof (induction xs ys rule: lev.induct)
  case (1 ys)
  show ?case by (induction ys) (auto intro: edits.intros)
next
  case (2 x xs)
  have "edits zs [] (length zs)" for zs :: "'a list"
    by (induction zs) (auto intro: edits.intros)
  from this[of "x # xs"] show ?case by simp
next
  case (3 x xs y ys)
  then show ?case by (auto intro: edits.intros simp: min_def)
qed

lemma lev_least: "edits xs ys n \<Longrightarrow> lev xs ys \<le> n"
proof (induction rule: edits.induct)
  case (delete_e xs ys n x)
  have "lev (x # xs) ys \<le> lev xs ys + 1" using lev_lipschitz[of x xs ys] by blast
  with delete_e show ?case by simp
next
  case (insert_e xs ys n y)
  have "lev xs (y # ys) \<le> lev xs ys + 1" using lev_lipschitz[of _ xs ys y] by blast
  with insert_e show ?case by simp
next
  case (replace_e xs ys n x y)
  then show ?case by auto
qed auto

lemma edits_sym: "edits xs ys n \<Longrightarrow> edits ys xs n"
  by (induction rule: edits.induct) (auto intro: edits.intros)

lemma lev_sym: "lev xs ys = lev ys xs"
  by (meson edits_lev edits_sym lev_least le_antisym)

lemma edits_snoc:
  assumes "edits xs ys n"
  shows "edits (xs @ [x]) (ys @ [x]) n" and "edits (xs @ [x]) (ys @ [y]) (Suc n)"
    and "edits (xs @ [x]) ys (Suc n)" and "edits xs (ys @ [y]) (Suc n)"
  using assms by (induction rule: edits.induct) (auto intro: edits.intros)

lemma edits_rev: "edits xs ys n \<Longrightarrow> edits (rev xs) (rev ys) n"
  by (induction rule: edits.induct) (auto intro: edits.intros edits_snoc)

lemma lev_rev: "lev (rev xs) (rev ys) = lev xs ys"
proof (rule le_antisym)
  show "lev (rev xs) (rev ys) \<le> lev xs ys"
    by (intro lev_least edits_rev edits_lev)
  have "edits (rev (rev xs)) (rev (rev ys)) (lev (rev xs) (rev ys))"
    by (intro edits_rev edits_lev)
  then show "lev xs ys \<le> lev (rev xs) (rev ys)"
    by (simp add: lev_least)
qed

lemma for_range_Suc:
  "a \<le> b \<Longrightarrow> for_range a (Suc b) body s = Option.bind (for_range a b body s) (body b)"
  by (simp add: for_range_def)

lemma for_range_inv:
  assumes "a \<le> b" "P a s"
    and step: "\<And>k s. a \<le> k \<Longrightarrow> k < b \<Longrightarrow> P k s \<Longrightarrow> \<exists>s'. body k s = Some s' \<and> P (Suc k) s'"
  shows "\<exists>s'. for_range a b body s = Some s' \<and> P b s'"
  using assms(1) step
proof (induction b)
  case 0
  then show ?case using assms(2) by (simp add: for_range_def)
next
  case (Suc b)
  show ?case
  proof (cases "a = Suc b")
    case True
    then show ?thesis using assms(2) by (simp add: for_range_def)
  next
    case False
    with Suc.prems have ab: "a \<le> b" by simp
    from Suc.IH[OF ab] Suc.prems(2) obtain s1 where s1: "for_range a b body s = Some s1" "P b s1"
      by (metis less_Suc_eq)
    from Suc.prems(2)[OF ab _ s1(2)] obtain s2 where "body b s1 = Some s2" "P (Suc b) s2"
      by auto
    then show ?thesis using s1 ab by (simp add: for_range_Suc)
  qed
qed

lemma dist_at_0: "dist_at str1 str2 0 j = min j (length str1)" "dist_at str1 str2 i 0 = min i (length str2)"
  by (simp_all add: dist_at_def lev_Nil2)

lemma dist_at_Suc:
  assumes "i < length str2" "j < length str1"
  shows "dist_at str1 str2 (Suc i) (Suc j) =
           (if str2 ! i = str1 ! j then dist_at str1 str2 i j
            else min (dist_at str1 str2 i j + 1)
                  (min (dist_at str1 str2 (Suc i) j + 1) (dist_at str1 str2 i (Suc j) + 1)))"
  using assms by (simp add: dist_at_def take_Suc_conv_app_nth)

lemma cell_set_cell:
  "set_cell m i j v = Some m' \<Longrightarrow> cell m' i' j' = (if i' = i \<and> j' = j then Some v else cell m i' j')"
  by (auto simp: set_cell_def cell_def split: option.splits if_splits)

lemma rows_set_cell: "set_cell m i j v = Some m' \<Longrightarrow> (m' i' = None) = (m i' = None)"
  by (auto simp: set_cell_def split: option.splits if_splits)

lemma set_cell_defined: "m i \<noteq> None \<Longrightarrow> \<exists>m'. set_cell m i j v = Some m'"
  by (auto simp: set_cell_def)

lemma init_rows_ok:
  "\<exists>m. init_rows n Map.empty = Some m \<and> (\<forall>i \<le> n. m i = Some [0 \<mapsto> i])"
proof -
  have "\<exists>m. for_range 0 (Suc n) (\<lambda>i m. Some (m(i \<mapsto> [0 \<mapsto> i]))) Map.empty = Some m
           \<and> (\<forall>i < Suc n. m i = Some [0 \<mapsto> i])"
    by (rule for_range_inv[where P = "\<lambda>k m. \<forall>i < k. m i = Some [0 \<mapsto> i]"]) (auto simp: less_Suc_eq)
  then show ?thesis by (simp add: init_rows_def less_Suc_eq_le)
qed

lemma init_cols_ok:
  assumes "\<forall>i \<le> n2. m i = Some [0 \<mapsto> i]"
  shows "\<exists>m'. init_cols n1 m = Some m' \<and> (\<forall>i \<le> n2. m' i \<noteq> None)
           \<and> (\<forall>j \<le> n1. cell m' 0 j = Some j) \<and> (\<forall>i \<le> n2. cell m' i 0 = Some i)"
proof -
  let ?P = "\<lambda>k m'. (\<forall>i \<le> n2. m' i \<noteq> None) \<and> (\<forall>j < k. cell m' 0 j = Some j) \<and> (\<forall>i \<le> n2. cell m' i 0 = Some i)"
  have "\<exists>m'. for_range 0 (Suc n1) (\<lambda>j m. set_cell m 0 j j) m = Some m' \<and> ?P (Suc n1) m'"
  proof (rule for_range_inv[where P = ?P])
    show "?P 0 m" using assms by (auto simp: cell_def)
  next
    fix k s assume "?P k s"
    then obtain s' where s': "set_cell s 0 k k = Some s'"
      using set_cell_defined[of s 0 k k] by auto
    have "?P (Suc k) s'" using \<open>?P k s\<close>
      by (auto simp: cell_set_cell[OF s'] rows_set_cell[OF s'] less_Suc_eq)
    then show "\<exists>s'. set_cell s 0 k k = Some s' \<and> ?P (Suc k) s'" using s' by blast
  qed simp
  then show ?thesis by (auto simp: init_cols_def less_Suc_eq_le)
qed

lemma fill_cell_ok:
  assumes "filled str1 str2 i j m" "1 \<le> i" "i \<le> length str2" "1 \<le> j" "j \<le> length str1"
  shows "\<exists>m'. fill_cell str1 str2 i j m = Some m' \<and> filled str1 str2 i (Suc j) m'"
proof -
  obtain i0 j0 where ij: "i = Suc i0" "j = Suc j0" using assms(2,4) by (metis One_nat_def Suc_le_D)
  have c1: "cell m i0 j0 = Some (dist_at str1 str2 i0 j0)"
   and c2: "cell m i j0 = Some (dist_at str1 str2 i j0)"
   and c3: "cell m i0 j = Some (dist_at str1 str2 i0 j)"
    using assms ij by (auto simp: filled_def)
  have rows: "m i \<noteq> None" using assms by (auto simp: filled_def)
  let ?v = "dist_at str1 str2 i j"
  obtain m' where m': "set_cell m i j ?v = Some m'" using set_cell_defined[of m i j ?v] rows by blast
  have "fill_cell str1 str2 i j m = Some m'"
    using assms(3,5) c1 c2 c3 m' ij
    by (auto simp: fill_cell_def charAt_def dist_at_Suc split: if_splits)
  moreover have "filled str1 str2 i (Suc j) m'"
    using assms(1) assms(4) unfolding filled_def
    by (auto simp: cell_set_cell[OF m'] rows_set_cell[OF m'] less_Suc_eq)
  ultimately show ?thesis by blast
qed

lemma fill_row_ok:
  assumes "filled str1 str2 i 1 m" "1 \<le> i" "i \<le> length str2"
  shows "\<exists>m'. for_range 1 (Suc (length str1)) (\<lambda>j. fill_cell str1 str2 i j) m = Some m'
            \<and> filled str1 str2 (Suc i) 1 m'"
proof -
  have "\<exists>m'. for_range 1 (Suc (length str1)) (\<lambda>j. fill_cell str1 str2 i j) m = Some m'
            \<and> filled str1 str2 i (Suc (length str1)) m'"
    by (rule for_range_inv[where P = "filled str1 str2 i"])
       (use assms in \<open>auto intro!: fill_cell_ok\<close>)
  moreover have "filled str1 str2 i (Suc (length str1)) m' \<Longrightarrow> filled str1 str2 (Suc i) 1 m'" for m'
    unfolding filled_def by fastforce
  ultimately show ?thesis by blast
qed

lemma levenshteinDistance_lev: "levenshteinDistance str1 str2 = Some (lev str1 str2)"
proof -
  obtain m0 where m0: "init_rows (length str2) Map.empty = Some m0"
      "\<forall>i \<le> length str2. m0 i = Some [0 \<mapsto> i]"
    using init_rows_ok by blast
  obtain m1 where m1: "init_cols (length str1) m0 = Some m1"
      "\<forall>i \<le> length str2. m1 i \<noteq> None" "\<forall>j \<le> length str1. cell m1 0 j = Some j"
      "\<forall>i \<le> length str2. cell m1 i 0 = Some i"
    using init_cols_ok[OF m0(2)] by blast
  have f1: "filled str1 str2 1 1 m1"
    using m1 by (auto simp: filled_def dist_at_0 less_Suc_eq)
  have "\<exists>m2. for_range 1 (Suc (length str2)) (\<lambda>i.
                    for_range 1 (Suc (length str1)) (\<lambda>j. fill_cell str1 str2 i j)) m1 = Some m2
         \<and> filled str1 str2 (Suc (length str2)) 1 m2"
    by (rule for_range_inv[where P = "\<lambda>i. filled str1 str2 i 1"])
       (use f1 fill_row_ok[of str1 str2] in \<open>simp_all\<close>)
  then obtain m2 where m2: "for_range 1 (Suc (length str2)) (\<lambda>i.
                    for_range 1 (Suc (length str1)) (\<lambda>j. fill_cell str1 str2 i j)) m1 = Some m2"
     "filled str1 str2 (Suc (length str2)) 1 m2" by blast
  have "cell m2 (length str2) (length str1) = Some (dist_at str1 str2 (length str2) (length str1))"
    using m2(2) by (auto simp: filled_def)
  then show ?thesis
    using m0 m1 m2 by (simp add: levenshteinDistance_def dist_at_def lev_rev)
qed

lemma calculateStringSimilarity_lev:
  "calculateStringSimilarity a b =
     Some (if max (length a) (length b) = 0 then 1
           else (real (max (length a) (length b)) - real (lev a b)) / real (max (length a) (length b)))"
proof (cases "length a > length b")
  case True
  then show ?thesis
    by (simp add: calculateStringSimilarity_def levenshteinDistance_lev max_def)
next
  case False
  then have "max (length a) (length b) = length b" by simp
  then show ?thesis using False
    by (simp add: calculateStringSimilarity_def levenshteinDistance_lev lev_sym[of b a])
qed

lemma lev_same: "lev a a = 0"
  by (induction a) auto

lemma is_edit_distance_lev: "is_edit_distance a b (lev a b)"
  by (simp add: is_edit_distance_def edits_lev lev_least)

text \<open>
  Claim C4. The similarity is symmetric, it is 1 on equal strings and on two empty
  strings, and in general it is (maxLength - editDistance) / maxLength, where the edit
  distance, which \<^verbatim>\<open>levenshteinDistance\<close> returns, is the least cost of a script of
  unit-cost insertions, replacements and deletions and maxLength is the length of the
  longer string.
\<close>

theorem calculateStringSimilarity_spec:
  "calculateStringSimilarity a b = calculateStringSimilarity b a
   \<and> calculateStringSimilarity a a = Some 1
   \<and> calculateStringSimilarity ([] :: 'a list) [] = Some 1
   \<and> (\<exists>d. is_edit_distance a b d \<and> levenshteinDistance a b = Some d
          \<and> calculateStringSimilarity a b =
              Some (if max (length a) (length b) = 0 then 1
                    else (real (max (length a) (length b)) - real d) / real (max (length a) (length b))))"
proof (intro conjI)
  show "calculateStringSimilarity a b = calculateStringSimilarity b a"
    by (simp add: calculateStringSimilarity_lev lev_sym[of a b] max.commute)
  show "calculateStringSimilarity a a = Some 1"
    by (simp add: calculateStringSimilarity_lev lev_same)
  show "calculateStringSimilarity ([] :: 'a list) [] = Some 1"
    by (simp add: calculateStringSimilarity_lev)
  show "\<exists>d. is_edit_distance a b d \<and> levenshteinDistance a b = Some d
          \<and> calculateStringSimilarity a b =
              Some (if max (length a) (length b) = 0 then 1
                    else (real (max (length a) (length b)) - real d) / real (max (length a) (length b)))"
    using is_edit_distance_lev[of a b] levenshteinDistance_lev[of a b]
      calculateStringSimilarity_lev[of a b] by blast
qed

theorem calculateStringSimilarity_spec_witness:
  "calculateStringSimilarity ''ab'' ''b'' = Some (1 / 2)
   \<and> calculateStringSimilarity ''b'' ''ab'' = Some (1 / 2)
   \<and> levenshteinDistance ''ab'' ''b'' = Some 1
   \<and> is_edit_distance ''ab'' ''b'' 1"
proof -
  have e: "levenshteinDistance ''ab'' ''b'' = Some 1"
    by (simp add: levenshteinDistance_def init_rows_def init_cols_def for_range_def
          fill_cell_def cell_def set_cell_def charAt_def upt_rec)
  from calculateStringSimilarity_spec[of "''ab''" "''b''"]
  obtain d where d: "is_edit_distance ''ab'' ''b'' d" "levenshteinDistance ''ab'' ''b'' = Some d"
      "calculateStringSimilarity ''ab'' ''b'' = Some ((2 - real d) / 2)"
      "calculateStringSimilarity ''ab'' ''b'' = calculateStringSimilarity ''b'' ''ab''"
    by auto
  from d(2) e have "d = 1" by simp
  with d e show ?thesis by simp
qed

section \<open>Proofs: the match engine\<close>

lemma length_filteredResults: "results \<noteq> [] \<Longrightarrow> filteredResults results mediaType \<noteq> []"
  by (simp add: filteredResults_def Let_def)

lemma findBestMatch_nonempty:
  assumes "results \<noteq> []"
  shows "\<exists>best. findBestMatch env results t countryCode mediaType = Some best"
proof -
  have "scoredResults env results t countryCode mediaType \<noteq> []"
    using length_filteredResults[OF assms] by (simp add: scoredResults_def)
  then have "set (sort_key (\<lambda>scored. - snd scored) (scoredResults env results t countryCode mediaType)) \<noteq> {}"
    by simp
  then have "sort_key (\<lambda>scored. - snd scored) (scoredResults env results t countryCode mediaType) \<noteq> []"
    by (simp del: set_sort)
  then show ?thesis using assms
    by (auto simp: findBestMatch_def split: list.splits)
qed

lemma calls_append [simp]: "calls (tr @ tr') = calls tr + calls tr'"
  by (simp add: calls_def)

lemma calls_simps [simp]: "calls [] = 0" "calls (Get rq # tr) = Suc (calls tr)" "calls (Wait d # tr) = calls tr"
  by (simp_all add: calls_def)

lemma try_strategy_empty:
  assumes "candidates_of (api (calls tr) (searchParams mediaType s)) = []"
  shows "try_strategy env api t mediaType countryCode i s tr = (Inr None, tr @ [Get (searchParams mediaType s)])
       \<or> (\<exists>e. try_strategy env api t mediaType countryCode i s tr = (Inl e, tr @ [Get (searchParams mediaType s)]))"
  using assms
  by (auto simp: try_strategy_def axios_get_def candidates_of_def split: response.splits option.splits)

lemma try_strategy_found:
  assumes "candidates_of (api (calls tr) (searchParams mediaType s)) = results" "results \<noteq> []"
  shows "\<exists>bestMatch score. findBestMatch env results t countryCode mediaType = Some (bestMatch, score)
       \<and> try_strategy env api t mediaType countryCode i s tr =
           (Inr (Some (tmdb_result bestMatch mediaType i)), tr @ [Get (searchParams mediaType s)])"
proof -
  obtain bestMatch score where b: "findBestMatch env results t countryCode mediaType = Some (bestMatch, score)"
    using findBestMatch_nonempty[OF assms(2)] by (metis surj_pair)
  have "api (calls tr) (searchParams mediaType s) = Data (Some results)"
    using assms by (auto simp: candidates_of_def split: response.splits option.splits)
  then show ?thesis using b assms(2)
    by (simp add: try_strategy_def axios_get_def)
qed

lemma paced_simps:
  "paced mediaType ss 0 = []"
  "paced mediaType (s # ss) (Suc k) = Get (searchParams mediaType s) # Wait 100 # paced mediaType ss k"
  by (simp_all add: paced_def map_upt_Suc del: upt_Suc)

lemma strategy_loop_first_success:
  assumes "k < length ss"
    and "\<forall>j<k. candidates_of (api (calls tr + j) (searchParams mediaType (ss ! j))) = []"
    and "candidates_of (api (calls tr + k) (searchParams mediaType (ss ! k))) = results"
    and "results \<noteq> []"
  shows "\<exists>bestMatch score. findBestMatch env results t countryCode mediaType = Some (bestMatch, score)
       \<and> strategy_loop env api t mediaType countryCode i ss tr =
           (Inr (Some (tmdb_result bestMatch mediaType (i + k))),
            tr @ paced mediaType ss k @ [Get (searchParams mediaType (ss ! k))])"
  using assms
proof (induction ss arbitrary: k i tr)
  case Nil
  then show ?case by simp
next
  case (Cons s ss)
  show ?case
  proof (cases k)
    case 0
    with Cons.prems try_strategy_found[of api tr mediaType s results env t countryCode i]
    show ?thesis by (auto simp: paced_simps)
  next
    case (Suc k')
    let ?tr1 = "wait 100 (tr @ [Get (searchParams mediaType s)])"
    have e: "candidates_of (api (calls tr) (searchParams mediaType s)) = []"
      using Cons.prems(2) Suc by force
    have step: "strategy_loop env api t mediaType countryCode i (s # ss) tr =
                strategy_loop env api t mediaType countryCode (i + 1) ss ?tr1"
      using try_strategy_empty[of api tr mediaType s env t countryCode i] e by auto
    have c: "calls ?tr1 = Suc (calls tr)" by (simp add: wait_def)
    have "\<exists>bestMatch score. findBestMatch env results t countryCode mediaType = Some (bestMatch, score)
       \<and> strategy_loop env api t mediaType countryCode (i + 1) ss ?tr1 =
           (Inr (Some (tmdb_result bestMatch mediaType (i + 1 + k'))),
            ?tr1 @ paced mediaType ss k' @ [Get (searchParams mediaType (ss ! k'))])"
    proof (rule Cons.IH)
      show "k' < length ss" using Cons.prems(1) Suc by simp
      show "\<forall>j<k'. candidates_of (api (calls ?tr1 + j) (searchParams mediaType (ss ! j))) = []"
        using Cons.prems(2) Suc c by force
      show "candidates_of (api (calls ?tr1 + k') (searchParams mediaType (ss ! k'))) = results"
        using Cons.prems(3) Suc c by simp
      show "results \<noteq> []" by fact
    qed
    then show ?thesis using step Suc by (simp add: paced_simps wait_def)
  qed
qed

lemma strategy_loop_all_empty:
  assumes "\<forall>j<length ss. candidates_of (api (calls tr + j) (searchParams mediaType (ss ! j))) = []"
  shows "strategy_loop env api t mediaType countryCode i ss tr = (Inr None, tr @ paced mediaType ss (length ss))"
  using assms
proof (induction ss arbitrary: i tr)
  case Nil
  then show ?case by (simp add: paced_simps)
next
  case (Cons s ss)
  let ?tr1 = "wait 100 (tr @ [Get (searchParams mediaType s)])"
  have e: "candidates_of (api (calls tr) (searchParams mediaType s)) = []"
    using Cons.prems by force
  have step: "strategy_loop env api t mediaType countryCode i (s # ss) tr =
              strategy_loop env api t mediaType countryCode (i + 1) ss ?tr1"
    using try_strategy_empty[of api tr mediaType s env t countryCode i] e by auto
  have c: "calls ?tr1 = Suc (calls tr)" by (simp add: wait_def)
  have "strategy_loop env api t mediaType countryCode (i + 1) ss ?tr1 = (Inr None, ?tr1 @ paced mediaType ss (length ss))"
  proof (rule Cons.IH)
    show "\<forall>j<length ss. candidates_of (api (calls ?tr1 + j) (searchParams mediaType (ss ! j))) = []"
      using Cons.prems c by force
  qed
  then show ?case using step by (simp add: paced_simps wait_def)
qed

lemma strategy_loop_never_throws:
  "\<exists>r tr'. strategy_loop env api t mediaType countryCode i ss tr = (Inr r, tr')"
proof (induction ss arbitrary: i tr)
  case Nil
  then show ?case by simp
next
  case (Cons s ss)
  then show ?case
    by (cases "try_strategy env api t mediaType countryCode i s tr")
       (auto split: sum.splits option.splits)
qed

lemma try_strategy_as_empty:
  "(try_strategy env (\<lambda>n rq. as_empty (api n rq)) t mediaType countryCode i s tr =
      try_strategy env api t mediaType countryCode i s tr)
   \<or> (try_strategy env (\<lambda>n rq. as_empty (api n rq)) t mediaType countryCode i s tr =
         (Inr None, tr @ [Get (searchParams mediaType s)])
       \<and> (\<exists>e. try_strategy env api t mediaType countryCode i s tr =
         (Inl e, tr @ [Get (searchParams mediaType s)])))"
  by (cases "api (calls tr) (searchParams mediaType s)")
     (auto simp: try_strategy_def axios_get_def as_empty_def split: option.splits)

lemma strategy_loop_as_empty:
  "strategy_loop env (\<lambda>n rq. as_empty (api n rq)) t mediaType countryCode i ss tr =
   strategy_loop env api t mediaType countryCode i ss tr"
proof (induction ss arbitrary: i tr)
  case Nil
  then show ?case by simp
next
  case (Cons s ss)
  show ?case
    using try_strategy_as_empty[of env api t mediaType countryCode i s tr] Cons.IH
    by (auto split: prod.splits sum.splits option.splits)
qed

lemma length_searchStrategies [simp]: "length (searchStrategies c countryCode) = 4"
  by (simp add: searchStrategies_def)

lemma searchTMDB_keyed:
  "truthy key \<Longrightarrow> searchTMDB env key api t mediaType countryCode tr =
     strategy_loop env api t mediaType countryCode 0 (searchStrategies (cleanTitleForSearch t) countryCode) tr"
  using strategy_loop_never_throws[of env api t mediaType countryCode 0
          "searchStrategies (cleanTitleForSearch t) countryCode" tr]
  by (auto simp: searchTMDB_def)

lemma searchTMDB_total: "\<exists>r tr'. searchTMDB env key api t mediaType countryCode tr = (Inr r, tr')"
  using strategy_loop_never_throws[of env api t mediaType countryCode 0
          "searchStrategies (cleanTitleForSearch t) countryCode" tr]
  by (auto simp: searchTMDB_def)


text \<open>
  Claim C8. \<^verbatim>\<open>searchTMDB\<close> never throws: it returns a value for every input. A call
  that fails is treated as a call with zero results: answering every failed call with an
  empty result list instead changes neither the result nor the trace. With an API key,
  the result is \<^verbatim>\<open>null\<close> if and only if none of the four strategies yields a candidate;
  without one it is \<^verbatim>\<open>null\<close> and no call is made.
\<close>

theorem searchTMDB_never_throws:
  "(\<exists>r tr'. searchTMDB env tmdbApiKey api t mediaType countryCode tr = (Inr r, tr'))
   \<and> searchTMDB env tmdbApiKey (\<lambda>n rq. as_empty (api n rq)) t mediaType countryCode tr =
       searchTMDB env tmdbApiKey api t mediaType countryCode tr
   \<and> (truthy tmdbApiKey \<longrightarrow>
        (fst (searchTMDB env tmdbApiKey api t mediaType countryCode tr) = Inr None
         \<longleftrightarrow> (\<forall>j<4. candidates_of (api (calls tr + j) (strategy_request t mediaType countryCode j)) = [])))
   \<and> (\<not> truthy tmdbApiKey \<longrightarrow> searchTMDB env tmdbApiKey api t mediaType countryCode tr = (Inr None, tr))"
proof (intro conjI impI)
  show "\<exists>r tr'. searchTMDB env tmdbApiKey api t mediaType countryCode tr = (Inr r, tr')"
    by (rule searchTMDB_total)
  show "searchTMDB env tmdbApiKey (\<lambda>n rq. as_empty (api n rq)) t mediaType countryCode tr =
       searchTMDB env tmdbApiKey api t mediaType countryCode tr"
    by (simp add: searchTMDB_def strategy_loop_as_empty)
  show "searchTMDB env tmdbApiKey api t mediaType countryCode tr = (Inr None, tr)" if "\<not> truthy tmdbApiKey"
    using that by (simp add: searchTMDB_def)
  show "fst (searchTMDB env tmdbApiKey api t mediaType countryCode tr) = Inr None
         \<longleftrightarrow> (\<forall>j<4. candidates_of (api (calls tr + j) (strategy_request t mediaType countryCode j)) = [])"
    if key: "truthy tmdbApiKey"
  proof
    let ?ss = "searchStrategies (cleanTitleForSearch t) countryCode"
    let ?P = "\<lambda>j. candidates_of (api (calls tr + j) (strategy_request t mediaType countryCode j)) \<noteq> []"
    assume none: "fst (searchTMDB env tmdbApiKey api t mediaType countryCode tr) = Inr None"
    show "\<forall>j<4. candidates_of (api (calls tr + j) (strategy_request t mediaType countryCode j)) = []"
    proof (rule ccontr)
      assume "\<not> (\<forall>j<4. candidates_of (api (calls tr + j) (strategy_request t mediaType countryCode j)) = [])"
      then obtain j where j: "j < 4" "?P j" by blast
      define k where "k = (LEAST j. j < 4 \<and> ?P j)"
      have k: "k < 4 \<and> ?P k" unfolding k_def by (rule LeastI[of "\<lambda>j. j < 4 \<and> ?P j" j]) (use j in simp)
      have below: "\<forall>i<k. \<not> ?P i"
        using not_less_Least[of _ "\<lambda>j. j < 4 \<and> ?P j"] k unfolding k_def by force
      from strategy_loop_first_success[of k ?ss api tr mediaType _ env t countryCode 0] k below
      obtain bestMatch where
        "strategy_loop env api t mediaType countryCode 0 ?ss tr =
           (Inr (Some (tmdb_result bestMatch mediaType k)),
            tr @ paced mediaType ?ss k @ [Get (searchParams mediaType (?ss ! k))])"
        by (auto simp: strategy_request_def)
      with none key show False by (simp add: searchTMDB_keyed)
    qed
  next
    let ?ss = "searchStrategies (cleanTitleForSearch t) countryCode"
    assume "\<forall>j<4. candidates_of (api (calls tr + j) (strategy_request t mediaType countryCode j)) = []"
    then have "strategy_loop env api t mediaType countryCode 0 ?ss tr = (Inr None, tr @ paced mediaType ?ss (length ?ss))"
      by (intro strategy_loop_all_empty) (simp add: strategy_request_def)
    then show "fst (searchTMDB env tmdbApiKey api t mediaType countryCode tr) = Inr None"
      using key by (simp add: searchTMDB_keyed)
  qed
qed

lemma truncate_spread [simp]: "entry.truncate (spread item d) = item"
  by (simp add: spread_def entry.defs enriched.defs)

lemma tmdb_spread [simp]: "tmdb (spread item d) = d"
  by (simp add: spread_def entry.defs enriched.defs)

lemma spread_fields [simp]:
  "rank (spread item d) = rank item" "title (spread item d) = title item"
  "category (spread item d) = category item"
  by (simp_all add: spread_def entry.defs enriched.defs)

lemma enrich_loop_Cons:
  "enrich_loop env key api countryCode (item # items) acc tr =
     enrich_loop env key api countryCode items
       (acc @ [fst (enrich_item env key api countryCode item tr)])
       (snd (enrich_item env key api countryCode item tr))"
proof -
  obtain r1 tr1 where s1: "searchTMDB env key api (title item) (item_mediaType item) countryCode tr = (Inr r1, tr1)"
    using searchTMDB_total by blast
  obtain r2 tr2 where s2: "searchTMDB env key api (title item) (js ''multi'') countryCode tr1 = (Inr r2, tr2)"
    using searchTMDB_total by blast
  show ?thesis
    using s1 s2 by (cases r1) (simp_all add: enrich_item_def item_mediaType_def enrich_loop.simps(2))
qed

declare enrich_loop.simps(2) [simp del]

lemma enrich_loop_frame:
  "\<exists>out tr'. enrich_loop env key api countryCode items acc tr = (Inr (acc @ out), tr')
      \<and> map entry.truncate out = items"
proof (induction items arbitrary: acc tr)
  case Nil
  then show ?case by simp
next
  case (Cons item items)
  let ?e = "fst (enrich_item env key api countryCode item tr)"
  let ?tr = "snd (enrich_item env key api countryCode item tr)"
  from Cons.IH[of "acc @ [?e]" ?tr] obtain out tr' where
    o: "enrich_loop env key api countryCode items (acc @ [?e]) ?tr = (Inr ((acc @ [?e]) @ out), tr')"
       "map entry.truncate out = items" by blast
  have t: "entry.truncate ?e = item"
    by (auto simp: enrich_item_def split: prod.splits sum.splits option.splits)
  show ?case
    using o t by (intro exI[of _ "?e # out"] exI[of _ tr']) (simp add: enrich_loop_Cons)
qed

lemma enrich_loop_acc:
  "enrich_loop env key api countryCode items [] tr = (Inr out, tr')
   \<Longrightarrow> enrich_loop env key api countryCode items acc tr = (Inr (acc @ out), tr')"
proof (induction items arbitrary: acc tr out tr')
  case Nil
  then show ?case by simp
next
  case (Cons item items)
  let ?e = "fst (enrich_item env key api countryCode item tr)"
  let ?tr = "snd (enrich_item env key api countryCode item tr)"
  obtain out0 tr0 where o: "enrich_loop env key api countryCode items [] ?tr = (Inr out0, tr0)"
    using enrich_loop_frame[of env key api countryCode items "[]" ?tr] by auto
  from Cons.IH[OF o, of "[?e]"] Cons.prems have "out = ?e # out0" "tr' = tr0"
    by (simp_all add: enrich_loop_Cons)
  then show ?case using Cons.IH[OF o, of "acc @ [?e]"] by (simp add: enrich_loop_Cons)
qed

lemma searchTMDB_no_candidates:
  assumes "\<forall>n rq. candidates_of (api n rq) = []"
  shows "fst (searchTMDB env key api t mediaType countryCode tr) = Inr None"
proof (cases "truthy key")
  case True
  have "strategy_loop env api t mediaType countryCode 0 (searchStrategies (cleanTitleForSearch t) countryCode) tr
        = (Inr None, tr @ paced mediaType (searchStrategies (cleanTitleForSearch t) countryCode)
                            (length (searchStrategies (cleanTitleForSearch t) countryCode)))"
    by (rule strategy_loop_all_empty) (use assms in simp)
  then show ?thesis using True by (simp add: searchTMDB_keyed)
next
  case False
  then show ?thesis by (simp add: searchTMDB_def)
qed

lemma enrich_item_no_candidates:
  assumes "\<forall>n rq. candidates_of (api n rq) = []"
  shows "tmdb (fst (enrich_item env key api countryCode item tr)) = None"
proof -
  obtain tr1 where s1: "searchTMDB env key api (title item) (item_mediaType item) countryCode tr = (Inr None, tr1)"
    using searchTMDB_no_candidates[OF assms, of env key "title item" "item_mediaType item" countryCode tr]
    by (metis prod.collapse)
  obtain tr2 where s2: "searchTMDB env key api (title item) (js ''multi'') countryCode tr1 = (Inr None, tr2)"
    using searchTMDB_no_candidates[OF assms, of env key "title item" "js ''multi''" countryCode tr1]
    by (metis prod.collapse)
  show ?thesis using s1 s2 by (simp add: enrich_item_def)
qed

lemma enrich_loop_no_candidates:
  assumes "\<forall>n rq. candidates_of (api n rq) = []"
  shows "\<exists>tr'. enrich_loop env key api countryCode items acc tr = (Inr (acc @ map (\<lambda>item. spread item None) items), tr')"
proof (induction items arbitrary: acc tr)
  case Nil
  then show ?case by simp
next
  case (Cons item items)
  let ?e = "fst (enrich_item env key api countryCode item tr)"
  have "tmdb ?e = None" by (rule enrich_item_no_candidates[OF assms])
  moreover have "entry.truncate ?e = item"
    by (auto simp: enrich_item_def split: prod.splits sum.splits option.splits)
  ultimately have "?e = spread item None"
    by (auto simp: enrich_item_def split: prod.splits sum.splits option.splits)
  then show ?case using Cons.IH[of "acc @ [?e]"] by (simp add: enrich_loop_Cons)
qed

lemma findBestMatch_single:
  "findBestMatch env [r] t countryCode mediaType = Some (r, similarity_score env t countryCode r)"
  by (simp add: findBestMatch_def scoredResults_def filteredResults_def Let_def)

lemma clean_example: "cleanTitleForSearch (js ''1. My Show (2023)'') = js ''My Show''"
  by code_simp

lemma country_example: "removeCountryIndicators (js ''My Show PH'') = js ''My Show''"
  by code_simp

lemma js_neq [simp]: "js ''tv'' \<noteq> js ''multi''" "js ''movie'' \<noteq> js ''tv''" "js ''PH'' \<noteq> []"
    "js ''key'' \<noteq> []" "js ''movie'' \<noteq> []"
  by (simp_all add: js_def)


theorem searchTMDB_never_throws_witness:
  "fst (searchTMDB demo_env (Some (js ''key'')) api_down (js ''My Show'') (js ''tv'') (js ''PH'') []) = Inr None
   \<and> searchTMDB demo_env (Some (js ''key'')) (\<lambda>n rq. Data (Some [])) (js ''My Show'') (js ''tv'') (js ''PH'') []
       = searchTMDB demo_env (Some (js ''key'')) api_down (js ''My Show'') (js ''tv'') (js ''PH'') []
   \<and> searchTMDB demo_env None api_second (js ''My Show'') (js ''tv'') (js ''PH'') [] = (Inr None, [])"
  using searchTMDB_never_throws[of demo_env "Some (js ''key'')" api_down "js ''My Show''" "js ''tv''" "js ''PH''" "[]"]
        searchTMDB_never_throws[of demo_env None api_second "js ''My Show''" "js ''tv''" "js ''PH''" "[]"]
  by (simp add: truthy_def api_down_def candidates_of_def as_empty_def)

text \<open>
  Claim C10. For a media type other than \<^verbatim>\<open>multi\<close>, a candidate without
  \<^verbatim>\<open>media_type\<close> passes the filter of \<^verbatim>\<open>findBestMatch\<close> and is scored; and when no
  candidate passes the filter, all candidates are scored and a match is reported.
\<close>

theorem findBestMatch_media_type_filter:
  "(mediaType \<noteq> js ''multi'' \<and> r \<in> set results \<and> r_media_type r = None \<longrightarrow>
       r \<in> set (filteredResults results mediaType)
       \<and> (r, similarity_score env t countryCode r) \<in> set (scoredResults env results t countryCode mediaType))
   \<and> (mediaType \<noteq> js ''multi'' \<and> (\<forall>r\<in>set results. or_str (r_media_type r) mediaType \<noteq> mediaType) \<longrightarrow>
       filteredResults results mediaType = results
       \<and> scoredResults env results t countryCode mediaType
           = map (\<lambda>r. (r, similarity_score env t countryCode r)) results
       \<and> (results \<noteq> [] \<longrightarrow> findBestMatch env results t countryCode mediaType \<noteq> None))"
proof (intro conjI impI)
  assume a: "mediaType \<noteq> js ''multi'' \<and> r \<in> set results \<and> r_media_type r = None"
  then have "or_str (r_media_type r) mediaType = mediaType" by (simp add: or_str_def)
  with a show f: "r \<in> set (filteredResults results mediaType)"
    by (auto simp: filteredResults_def Let_def)
  then show "(r, similarity_score env t countryCode r) \<in> set (scoredResults env results t countryCode mediaType)"
    by (auto simp: scoredResults_def)
next
  assume a: "mediaType \<noteq> js ''multi'' \<and> (\<forall>r\<in>set results. or_str (r_media_type r) mediaType \<noteq> mediaType)"
  then have "filter (\<lambda>r. or_str (r_media_type r) mediaType = mediaType) results = []"
    by (simp add: filter_empty_conv)
  then show f: "filteredResults results mediaType = results"
    by (simp add: filteredResults_def)
  then show "scoredResults env results t countryCode mediaType
           = map (\<lambda>r. (r, similarity_score env t countryCode r)) results"
    by (simp add: scoredResults_def)
  show "findBestMatch env results t countryCode mediaType \<noteq> None" if "results \<noteq> []"
    using findBestMatch_nonempty[OF that, of env t countryCode mediaType] by auto
qed

theorem findBestMatch_media_type_filter_witness:
  "demo_show \<in> set (filteredResults [demo_movie, demo_show] (js ''tv''))
   \<and> (demo_show, similarity_score demo_env (js ''My Show'') (js ''PH'') demo_show)
        \<in> set (scoredResults demo_env [demo_movie, demo_show] (js ''My Show'') (js ''PH'') (js ''tv''))
   \<and> filteredResults [demo_movie] (js ''tv'') = [demo_movie]
   \<and> findBestMatch demo_env [demo_movie] (js ''My Show'') (js ''PH'') (js ''tv'') \<noteq> None"
proof -
  have m: "r_media_type demo_show = None" "or_str (r_media_type demo_movie) (js ''tv'') \<noteq> js ''tv''"
    by (simp_all add: demo_show_def demo_movie_def or_str_def)
  show ?thesis
    using findBestMatch_media_type_filter[of "js ''tv''" demo_show "[demo_movie, demo_show]" demo_env "js ''My Show''" "js ''PH''"]
          findBestMatch_media_type_filter[of "js ''tv''" demo_show "[demo_movie]" demo_env "js ''My Show''" "js ''PH''"]
          m
    by simp
qed

text \<open>
  Claim C7. \<^verbatim>\<open>enrichWithTMDB\<close> returns, for every input, a list of the length of its
  input whose entries are the input entries in order with the match fields added: rank,
  title, category and the other fields of each entry are unchanged. A failed match does
  not end the batch: when no call yields a candidate every entry comes back without match
  fields, and the batch after an entry is processed as a batch of its own whatever the
  search for that entry gave.
\<close>

theorem enrichWithTMDB_frame:
  "\<exists>out tr'. enrichWithTMDB env key api items countryCode tr = (Inr out, tr')
      \<and> length out = length items
      \<and> (\<forall>i<length items. rank (out ! i) = rank (items ! i) \<and> title (out ! i) = title (items ! i)
            \<and> category (out ! i) = category (items ! i) \<and> entry.truncate (out ! i) = items ! i)
      \<and> ((\<forall>n rq. candidates_of (api n rq) = []) \<longrightarrow> (\<forall>i<length items. tmdb (out ! i) = None))
      \<and> (truthy key \<longrightarrow> (\<forall>item rest. items = item # rest \<longrightarrow>
            (\<exists>out'. out = fst (enrich_item env key api countryCode item tr) # out'
               \<and> enrichWithTMDB env key api rest countryCode (snd (enrich_item env key api countryCode item tr))
                   = (Inr out', tr'))))"
proof (cases "truthy key")
  case False
  then show ?thesis by (simp add: enrichWithTMDB_def)
next
  case True
  obtain out tr' where o: "enrich_loop env key api countryCode items [] tr = (Inr out, tr')"
      "map entry.truncate out = items"
    using enrich_loop_frame[of env key api countryCode items "[]" tr] by auto
  have len: "length out = length items" using o(2) by (metis length_map)
  have fr: "entry.truncate (out ! i) = items ! i" if "i < length items" for i
    using o(2) that len by (metis nth_map)
  have fields: "rank (out ! i) = rank (items ! i) \<and> title (out ! i) = title (items ! i)
            \<and> category (out ! i) = category (items ! i)" if "i < length items" for i
    using fr[OF that] by (metis entry.truncate_def entry.select_convs(1,2,3) entry.simps)
  have nc: "\<forall>i<length items. tmdb (out ! i) = None" if "\<forall>n rq. candidates_of (api n rq) = []"
    using enrich_loop_no_candidates[OF that, of env key countryCode items "[]" tr] o(1) by auto
  have cont: "\<exists>out'. out = fst (enrich_item env key api countryCode item tr) # out'
               \<and> enrich_loop env key api countryCode rest [] (snd (enrich_item env key api countryCode item tr))
                   = (Inr out', tr')" if "items = item # rest" for item rest
  proof -
    obtain out' tr'' where r: "enrich_loop env key api countryCode rest [] (snd (enrich_item env key api countryCode item tr))
         = (Inr out', tr'')"
      using enrich_loop_frame[of env key api countryCode rest "[]" "snd (enrich_item env key api countryCode item tr)"]
      by auto
    from enrich_loop_acc[OF r, of "[fst (enrich_item env key api countryCode item tr)]"] o(1) that
    show ?thesis using r by (simp add: enrich_loop_Cons)
  qed
  show ?thesis
    using True o(1) len fr fields nc cont by (simp add: enrichWithTMDB_def)
qed

lemma enriched_eq: "entry.truncate x = item \<Longrightarrow> tmdb x = d \<Longrightarrow> x = spread item d"
  by (cases x) (auto simp: spread_def entry.defs enriched.defs)

lemma calls_paced [simp]: "k \<le> length ss \<Longrightarrow> calls (paced mediaType ss k) = k"
proof (induction ss arbitrary: k)
  case Nil
  then show ?case by (simp add: paced_simps)
next
  case (Cons s ss)
  then show ?case by (cases k) (simp_all add: paced_simps)
qed

lemma searchTMDB_all_empty:
  assumes "truthy key"
    and "\<forall>j<4. candidates_of (api (calls tr + j) (strategy_request t mediaType countryCode j)) = []"
  shows "\<exists>tr'. searchTMDB env key api t mediaType countryCode tr = (Inr None, tr') \<and> calls tr' = calls tr + 4"
proof -
  let ?ss = "searchStrategies (cleanTitleForSearch t) countryCode"
  have "strategy_loop env api t mediaType countryCode 0 ?ss tr = (Inr None, tr @ paced mediaType ?ss (length ?ss))"
    by (rule strategy_loop_all_empty) (use assms(2) in \<open>simp add: strategy_request_def\<close>)
  then show ?thesis using assms(1) by (simp add: searchTMDB_keyed)
qed

lemma searchTMDB_first_strategy:
  assumes "truthy key"
    and "candidates_of (api (calls tr) (strategy_request t mediaType countryCode 0)) = [r]"
  shows "fst (searchTMDB env key api t mediaType countryCode tr) = Inr (Some (tmdb_result r mediaType 0))"
proof -
  let ?ss = "searchStrategies (cleanTitleForSearch t) countryCode"
  from strategy_loop_first_success[of 0 ?ss api tr mediaType "[r]" env t countryCode 0] assms(2)
  show ?thesis using assms(1)
    by (auto simp: searchTMDB_keyed strategy_request_def findBestMatch_single)
qed

lemma enrich_mixed:
  "fst (enrichWithTMDB demo_env (Some (js ''key'')) api_ninth [demo_entry1, demo_entry2] (js ''PH'') [])
   = Inr [spread demo_entry1 None, spread demo_entry2 (Some (tmdb_result demo_show (js ''tv'') 0))]"
proof -
  let ?key = "Some (js ''key'')"
  have key: "truthy ?key" by (simp add: truthy_def)
  have mt: "item_mediaType demo_entry1 = js ''tv''" "item_mediaType demo_entry2 = js ''tv''"
    by (simp_all add: item_mediaType_def demo_entry1_def demo_entry2_def js_def)
  obtain tr1 where s1: "searchTMDB demo_env ?key api_ninth (title demo_entry1) (js ''tv'') (js ''PH'') [] = (Inr None, tr1)"
      "calls tr1 = 4"
    using searchTMDB_all_empty[OF key, of api_ninth "[]" "title demo_entry1" "js ''tv''" "js ''PH''" demo_env]
    by (auto simp: api_ninth_def candidates_of_def)
  obtain tr2 where s2: "searchTMDB demo_env ?key api_ninth (title demo_entry1) (js ''multi'') (js ''PH'') tr1 = (Inr None, tr2)"
      "calls tr2 = 8"
    using searchTMDB_all_empty[OF key, of api_ninth tr1 "title demo_entry1" "js ''multi''" "js ''PH''" demo_env] s1(2)
    by (auto simp: api_ninth_def candidates_of_def)
  have e1: "enrich_item demo_env ?key api_ninth (js ''PH'') demo_entry1 [] = (spread demo_entry1 None, wait 200 tr2)"
    using s1 s2 by (simp add: enrich_item_def mt)
  have c: "calls (wait 200 tr2) = 8" using s2(2) by (simp add: wait_def)
  have s3: "fst (searchTMDB demo_env ?key api_ninth (title demo_entry2) (js ''tv'') (js ''PH'') (wait 200 tr2))
        = Inr (Some (tmdb_result demo_show (js ''tv'') 0))"
    by (rule searchTMDB_first_strategy[OF key]) (simp add: c api_ninth_def candidates_of_def)
  have e2: "fst (enrich_item demo_env ?key api_ninth (js ''PH'') demo_entry2 (wait 200 tr2))
        = spread demo_entry2 (Some (tmdb_result demo_show (js ''tv'') 0))"
    using s3 by (auto simp: enrich_item_def mt split: prod.splits)
  show ?thesis
    using key e1 e2 by (simp add: enrichWithTMDB_def enrich_loop_Cons)
qed

theorem enrichWithTMDB_frame_witness:
  "fst (enrichWithTMDB demo_env (Some (js ''key'')) api_down [demo_entry1, demo_entry2] (js ''PH'') [])
     = Inr [spread demo_entry1 None, spread demo_entry2 None]
   \<and> fst (enrichWithTMDB demo_env (Some (js ''key'')) api_ninth [demo_entry1, demo_entry2] (js ''PH'') [])
     = Inr [spread demo_entry1 None, spread demo_entry2 (Some (tmdb_result demo_show (js ''tv'') 0))]"
proof -
  have nc: "\<forall>n rq. candidates_of (api_down n rq) = []"
    by (simp add: api_down_def candidates_of_def)
  from enrichWithTMDB_frame[of demo_env "Some (js ''key'')" api_down "[demo_entry1, demo_entry2]" "js ''PH''" "[]"]
  obtain out tr' where o: "enrichWithTMDB demo_env (Some (js ''key'')) api_down [demo_entry1, demo_entry2] (js ''PH'') [] = (Inr out, tr')"
     "length out = 2" "\<forall>i<2. entry.truncate (out ! i) = [demo_entry1, demo_entry2] ! i"
     "\<forall>i<2. tmdb (out ! i) = None"
    using nc by auto
  have "out ! 0 = spread demo_entry1 None" "out ! 1 = spread demo_entry2 None"
    using o(3,4) by (auto intro!: enriched_eq)
  moreover have "out = [out ! 0, out ! 1]"
    using o(2) by (cases out; cases "tl out") auto
  ultimately show ?thesis using o(1) enrich_mixed by simp
qed






lemma sort_key_pair:
  fixes f :: "'a \<Rightarrow> real"
  shows "f a < f b \<Longrightarrow> sort_key f [a, b] = [a, b]" "f a < f b \<Longrightarrow> sort_key f [b, a] = [a, b]"
  by simp_all









section \<open>Proofs: the list extractor\<close>

lemma ranks_ok_Nil [simp]: "ranks_ok []"
  by (simp add: ranks_ok_def)

lemma ranks_ok_snoc:
  "ranks_ok (rs @ [e]) \<longleftrightarrow> ranks_ok rs \<and> rank e \<notin> rank ` set rs \<and> 1 \<le> rank e \<and> rank e \<le> 10"
  by (auto simp: ranks_ok_def)

lemma ranks_ok_length:
  assumes "ranks_ok rs"
  shows "length rs \<le> 10"
proof -
  have "set (map rank rs) \<subseteq> {1..10}" using assms by (auto simp: ranks_ok_def)
  then have "card (set (map rank rs)) \<le> card {1..10::nat}" by (intro card_mono) auto
  moreover have "card (set (map rank rs)) = length rs"
    using assms by (metis distinct_card length_map ranks_ok_def)
  ultimately show ?thesis by simp
qed


lemma rank_new_entry [simp]: "rank (new_entry r t c p) = r" "category (new_entry r t c p) = c"
  "title (new_entry r t c p) = t"
  by (simp_all add: new_entry_def)

lemma final_pass_ok:
  "ranks_ok acc \<Longrightarrow> seen = set (map rank acc) \<Longrightarrow> ranks_ok (final_pass items acc seen)"
proof (induction items arbitrary: acc seen)
  case Nil
  then show ?case by simp
next
  case (Cons item items)
  show ?case
  proof (cases "rank item \<notin> seen \<and> rank item \<ge> 1 \<and> rank item \<le> 10")
    case True
    have "ranks_ok (final_pass items (acc @ [item]) (insert (rank item) seen))"
      by (rule Cons.IH) (use True Cons.prems in \<open>auto simp: ranks_ok_snoc\<close>)
    then show ?thesis using True by simp
  next
    case False
    then show ?thesis using Cons.IH[OF Cons.prems] by auto
  qed
qed

lemma lowest_free_rank:
  "find (\<lambda>r. r \<notin> ex) [1..<11] = Some r \<Longrightarrow> r \<notin> ex \<and> 1 \<le> r \<and> r \<le> 10"
  by (auto simp: find_Some_iff)

lemma fill_links_ok:
  "ranks_ok cur \<Longrightarrow> ex = set (map rank cur) \<Longrightarrow> ranks_ok (fill_links cat links cur ex)"
proof (induction links arbitrary: cur ex)
  case Nil
  then show ?case by simp
next
  case (Cons l links)
  show ?case
  proof (cases "trim l = []")
    case True
    then show ?thesis using Cons.IH[OF Cons.prems] by simp
  next
    case False
    show ?thesis
    proof (cases "find (\<lambda>r. r \<notin> ex) [1..<11]")
      case None
      then show ?thesis using False Cons.IH[OF Cons.prems] Cons.prems(1) by simp
    next
      case (Some r)
      let ?cur = "cur @ [new_entry r (trim l) cat []]"
      have ok: "ranks_ok ?cur"
        using lowest_free_rank[OF Some] Cons.prems by (auto simp: ranks_ok_snoc)
      have "ranks_ok (fill_links cat links ?cur (insert r ex))"
        by (rule Cons.IH[OF ok]) (use Cons.prems in auto)
      then show ?thesis using False Some ok by (simp add: Let_def)
    qed
  qed
qed

lemma parseTableData_ok: "ranks_ok (parseTableData doc sectionType)"
proof -
  have "ranks_ok (final_pass (sort_key rank (accumulated doc sectionType)) [] {})"
    by (rule final_pass_ok) simp_all
  then show ?thesis
    by (auto simp: parseTableData_def Let_def fillMissingRanks_def intro: fill_links_ok)
qed






subsection \<open>The stages\<close>



















subsection \<open>Categories\<close>

lemma all_category_simps [simp]:
  "all_category c []"
  "all_category c (rs @ [e]) \<longleftrightarrow> all_category c rs \<and> category e = c"
  "all_category c (e # rs) \<longleftrightarrow> category e = c \<and> all_category c rs"
  by (auto simp: all_category_def)



















lemma page_gap_ranks:
  "map (\<lambda>e. (rank e, title e)) (parseTableData page_gap TV_Shows) =
     [(1, js ''S1''), (2, js ''S2''), (4, js ''S4''), (5, js ''S5''), (6, js ''S6''), (7, js ''S7''),
      (8, js ''S8''), (9, js ''S9''), (3, js ''S1''), (10, js ''S2'')]"
  by code_simp


text \<open>
  Claim C1. For every document and section, \<^verbatim>\<open>parseTableData\<close> (with the gap fill of
  \<^verbatim>\<open>fillMissingRanks\<close>) returns at most 10 entries, every rank is a whole number from 1
  to 10, and no two entries have the same rank.
\<close>

theorem parseTableData_ranks:
  "length (parseTableData doc sectionType) \<le> 10
   \<and> (\<forall>e\<in>set (parseTableData doc sectionType). 1 \<le> rank e \<and> rank e \<le> 10)
   \<and> distinct (map rank (parseTableData doc sectionType))"
  using parseTableData_ok[of doc sectionType] ranks_ok_length[of "parseTableData doc sectionType"]
  by (simp add: ranks_ok_def)

theorem parseTableData_ranks_witness:
  "length (parseTableData page_gap TV_Shows) \<le> 10
   \<and> map rank (parseTableData page_gap TV_Shows) = [1, 2, 4, 5, 6, 7, 8, 9, 3, 10]
   \<and> 1 \<le> rank (parseTableData page_gap TV_Shows ! 8)
   \<and> rank (parseTableData page_gap TV_Shows ! 8) \<le> 10
   \<and> distinct (map rank (parseTableData page_gap TV_Shows))"
proof -
  have r: "map rank (parseTableData page_gap TV_Shows) = [1, 2, 4, 5, 6, 7, 8, 9, 3, 10]"
    using arg_cong[OF page_gap_ranks, of "map fst"] by (simp add: comp_def)
  have "length (map rank (parseTableData page_gap TV_Shows)) = 10"
    unfolding r by simp
  then have "length (parseTableData page_gap TV_Shows) = 10"
    by simp
  then have "parseTableData page_gap TV_Shows ! 8 \<in> set (parseTableData page_gap TV_Shows)"
    by simp
  then show ?thesis
    using parseTableData_ranks[of page_gap TV_Shows] r by simp
qed

text \<open>
  Claim C5 fails on the code. A table of nine rows ranked 1 to 9 in which the link of
  row 3 has no text: stage 1 finds ranks 1, 2 and 4 to 9, which are sorted; the gap fill
  then appends the text of the first link at rank 3 and that of the second at rank 10.
  The list returned is not in ascending order of rank.
\<close>

theorem parseTableData_gap_fill_unsorted:
  "map (\<lambda>e. (rank e, title e)) (parseTableData page_gap TV_Shows) =
     [(1, js ''S1''), (2, js ''S2''), (4, js ''S4''), (5, js ''S5''), (6, js ''S6''), (7, js ''S7''),
      (8, js ''S8''), (9, js ''S9''), (3, js ''S1''), (10, js ''S2'')]
   \<and> \<not> sorted (map rank (parseTableData page_gap TV_Shows))"
proof -
  have "map rank (parseTableData page_gap TV_Shows) = [1, 2, 4, 5, 6, 7, 8, 9, 3, 10]"
    using arg_cong[OF page_gap_ranks, of "map fst"] by (simp add: comp_def)
  then show ?thesis using page_gap_ranks by simp
qed



lemma page_both_accumulated:
  "map (\<lambda>e. (rank e, title e)) (accumulated page_both TV_Shows) =
     [(1, js ''T1''), (2, js ''T2''), (3, js ''T3''), (4, js ''T4''), (5, js ''T5''), (6, js ''T6''),
      (7, js ''T7''), (8, js ''T8'')]"
  by code_simp



section \<open>Proofs: title normalisation\<close>

lemma star_one_concat:
  assumes f: "f [] = []" "\<And>c cs. f (c # cs) = (if p c then [cs] else [])"
    and g: "\<And>c cs. p c \<Longrightarrow> g (c # cs) = []"
  shows "length s \<le> n \<Longrightarrow> concat (map g (star f n s)) = g (dropWhile p s)"
proof (induction n arbitrary: s)
  case 0
  then show ?case by simp
next
  case (Suc n)
  show ?case
  proof (cases s)
    case Nil
    then show ?thesis by (simp add: f)
  next
    case (Cons c cs)
    then show ?thesis using Suc.IH[of cs] Suc.prems by (simp add: f g)
  qed
qed

lemma star_one_hd:
  assumes f: "f [] = []" "\<And>c cs. f (c # cs) = (if p c then [cs] else [])"
  shows "length s \<le> n \<Longrightarrow> \<exists>more. star f n s = dropWhile p s # more"
proof (induction n arbitrary: s)
  case 0
  then show ?case by simp
next
  case (Suc n)
  show ?case
  proof (cases s)
    case Nil
    then show ?thesis by (simp add: f)
  next
    case (Cons c cs)
    then show ?thesis using Suc.IH[of cs] Suc.prems by (auto simp: f)
  qed
qed

lemma lazy_one_concat:
  assumes f: "f [] = []" "\<And>c cs. f (c # cs) = (if p c then [cs] else [])"
    and g: "g [] = []" "\<And>c cs. g (c # cs) = (if c = x then h cs else [])"
  shows "length s \<le> n \<Longrightarrow>
         \<exists>more. concat (map g (lazy_star f n s)) =
           (case dropWhile (\<lambda>c. c \<noteq> x \<and> p c) s of [] \<Rightarrow> [] | c # cs \<Rightarrow> if c = x then h cs @ more else [])"
proof (induction n arbitrary: s)
  case 0
  then show ?case by (simp add: g)
next
  case (Suc n)
  show ?case
  proof (cases s)
    case Nil
    then show ?thesis by (simp add: f g)
  next
    case (Cons c cs)
    then show ?thesis using Suc.IH[of cs] Suc.prems by (auto simp: f g)
  qed
qed

lemma ms_Cls_simps:
  "ms (Cls p) [] = []" "ms (Cls p) (c # cs) = (if p c then [cs] else [])"
  by simp_all

lemma ms_Seq: "ms (Seq a b) s = concat (map (ms b) (ms a s))"
  by simp

lemma ms_Star: "ms (Star a) s = star (ms a) (length s) s"
  by simp

lemma ms_LazyStar: "ms (LazyStar a) s = lazy_star (ms a) (length s) s"
  by simp

declare ms.simps [simp del]

lemma ms_star_seq:
  assumes "\<And>c cs. p c \<Longrightarrow> ms r (c # cs) = []"
  shows "ms (Seq (Star (Cls p)) r) s = ms r (dropWhile p s)"
  using star_one_concat[of "ms (Cls p)" p "ms r" s "length s"] assms
  by (simp add: ms_Seq ms_Star ms_Cls_simps)

lemma ms_star_hd: "\<exists>more. ms (Star (Cls p)) s = dropWhile p s # more"
  using star_one_hd[of "ms (Cls p)" p s "length s"] by (simp add: ms_Star ms_Cls_simps)

lemma ms_plus_seq:
  assumes "\<And>c cs. p c \<Longrightarrow> ms r (c # cs) = []"
  shows "ms (Seq (plus (Cls p)) r) s = (if takeWhile p s \<noteq> [] then ms r (dropWhile p s) else [])"
proof (cases s)
  case Nil
  then show ?thesis by (simp add: plus_def ms_Seq ms_Cls_simps)
next
  case (Cons c cs)
  show ?thesis
    using star_one_concat[of "ms (Cls p)" p "ms r" cs "length cs"] assms Cons
    by (simp add: plus_def ms_Seq ms_Star ms_Cls_simps)
qed

lemma ms_plus_hd:
  "\<exists>more. ms (plus (Cls p)) s = (if takeWhile p s \<noteq> [] then dropWhile p s # more else [])"
proof (cases s)
  case Nil
  then show ?thesis by (simp add: plus_def ms_Seq ms_Cls_simps)
next
  case (Cons c cs)
  then show ?thesis
    using star_one_hd[of "ms (Cls p)" p cs "length cs"]
    by (auto simp: plus_def ms_Seq ms_Star ms_Cls_simps)
qed

lemma ms_chr_seq:
  "ms (Seq (chr c) r) s = (case s of [] \<Rightarrow> [] | x # xs \<Rightarrow> if x = of_char c then ms r xs else [])"
  by (cases s) (simp_all add: chr_def ms_Seq ms_Cls_simps)

lemma ms_lit_i_seq:
  "ms (Seq (lit_i w) r) s =
     (if length w \<le> length s \<and> map canonicalize (take (length w) s) = map canonicalize (js w)
      then ms r (drop (length w) s) else [])"
proof (induction w arbitrary: s)
  case Nil
  then show ?case by (simp add: lit_i_def js_def ms_Seq ms.simps(2))
next
  case (Cons a w)
  have step: "ms (Seq (lit_i (a # w)) r) s =
      (case s of [] \<Rightarrow> [] | x # xs \<Rightarrow> if canonicalize x = canonicalize (of_char a) then ms (Seq (lit_i w) r) xs else [])"
    by (cases s) (simp_all add: lit_i_def chr_i_def ms_Seq ms_Cls_simps)
  show ?case
    unfolding step by (cases s) (auto simp: Cons.IH js_def)
qed

lemma ms_lazy_chr:
  "\<exists>more. ms (Seq (LazyStar (Cls p)) (Seq (chr c) r)) s =
     (case dropWhile (\<lambda>x. x \<noteq> of_char c \<and> p x) s of
        [] \<Rightarrow> []
      | d # rest \<Rightarrow> if d = of_char c then ms r rest @ more else [])"
  using lazy_one_concat[of "ms (Cls p)" p "ms (Seq (chr c) r)" "of_char c" "ms r" s "length s"]
  by (simp add: ms_chr_seq ms_Seq[of "LazyStar (Cls p)"] ms_LazyStar ms_Cls_simps)

lemma first_match_first_of: "first_match r s = first_of (ms r s)"
  by (simp add: first_match_def first_of_def)

lemma first_of_simps [simp]:
  "first_of [] = None" "first_of (x # xs) = Some x"
  by (simp_all add: first_of_def)

lemma first_of_star [simp]: "first_of (ms (Star (Cls p)) s) = Some (dropWhile p s)"
  using ms_star_hd[of p s] by auto

lemma first_of_star_append [simp]: "first_of (ms (Star (Cls p)) s @ ys) = Some (dropWhile p s)"
  using ms_star_hd[of p s] by auto

lemma first_of_plus [simp]:
  "first_of (ms (plus (Cls p)) s) = (if takeWhile p s \<noteq> [] then Some (dropWhile p s) else None)"
  using ms_plus_hd[of p s] by auto

lemma not_digit_dot: "isDigit c \<Longrightarrow> c \<noteq> 0x2E"
  by (auto simp: isDigit_def)

lemma first_match_number_dot:
  "first_match (Seq (plus (Cls isDigit)) (Seq (chr CHR ''.'') (Star (Cls isSpace)))) s = number_dot_prefix s"
proof -
  let ?r = "Seq (chr CHR ''.'') (Star (Cls isSpace))"
  have rej: "ms ?r (c # cs) = []" if "isDigit c" for c cs
    using not_digit_dot[OF that] by (simp add: ms_chr_seq)
  have m: "ms (Seq (plus (Cls isDigit)) ?r) s =
           (if takeWhile isDigit s \<noteq> [] then ms ?r (dropWhile isDigit s) else [])"
    by (rule ms_plus_seq) (rule rej)
  show ?thesis
    unfolding first_match_first_of m number_dot_prefix_def ms_chr_seq
    by (cases "dropWhile isDigit s") (simp_all del: dropWhile_eq_Nil_conv)
qed

lemma not_space_paren: "isSpace c \<Longrightarrow> c \<noteq> 0x28 \<and> c \<noteq> 0x5B"
  by (auto simp: isSpace_def)

lemma first_match_enclosed:
  assumes "\<And>c. isSpace c \<Longrightarrow> c \<noteq> of_char opening"
  shows "first_match (Seq (Star (Cls isSpace)) (Seq (chr opening)
            (Seq (LazyStar (Cls (\<lambda>c. \<not> isLineTerminator c))) (Seq (chr closing) (Star (Cls isSpace)))))) s
         = enclosed_group (of_char opening) (of_char closing) s"
proof -
  let ?inner = "Seq (LazyStar (Cls (\<lambda>c. \<not> isLineTerminator c))) (Seq (chr closing) (Star (Cls isSpace)))"
  let ?r = "Seq (chr opening) ?inner"
  have rej: "ms ?r (c # cs) = []" if "isSpace c" for c cs
    using assms[OF that] by (simp add: ms_chr_seq)
  have m: "ms (Seq (Star (Cls isSpace)) ?r) s = ms ?r (dropWhile isSpace s)"
    by (rule ms_star_seq) (rule rej)
  have inner: "first_of (ms ?inner x) =
      (case dropWhile (\<lambda>c. c \<noteq> of_char closing \<and> \<not> isLineTerminator c) x of
         [] \<Rightarrow> None
       | d # rest \<Rightarrow> if d = of_char closing then Some (dropWhile isSpace rest) else None)" for x
    using ms_lazy_chr[of "\<lambda>c. \<not> isLineTerminator c" closing "Star (Cls isSpace)" x]
    by (auto split: list.splits)
  show ?thesis
    unfolding first_match_first_of m enclosed_group_def ms_chr_seq
    by (cases "dropWhile isSpace s") (simp_all add: inner del: dropWhile_eq_Nil_conv)
qed

lemma not_space_digit:
  assumes "isSpace c"
  shows "\<not> isDigit c"
proof
  assume d: "isDigit c"
  have "\<not> (0x2000 \<le> c \<and> c \<le> 0x200A)"
  proof
    assume "0x2000 \<le> c \<and> c \<le> 0x200A"
    with d have "(0x2000 :: 16 word) \<le> 0x39" unfolding isDigit_def by (meson order_trans)
    then show False by simp
  qed
  with assms d show False by (auto simp: isSpace_def isDigit_def)
qed

lemma first_match_word_number:
  "first_match (Seq (lit_i w) (Seq (plus (Cls isSpace)) (plus (Cls isDigit)))) s = word_number w s"
proof -
  have rej: "ms (plus (Cls isDigit)) (c # cs) = []" if "isSpace c" for c cs
    using not_space_digit[OF that] by (simp add: plus_def ms_Seq ms_Cls_simps)
  have m: "ms (Seq (plus (Cls isSpace)) (plus (Cls isDigit))) x =
           (if takeWhile isSpace x \<noteq> [] then ms (plus (Cls isDigit)) (dropWhile isSpace x) else [])" for x
    by (rule ms_plus_seq) (rule rej)
  show ?thesis
    unfolding first_match_first_of ms_lit_i_seq m word_number_def by simp
qed

lemma first_match_whitespace: "first_match (plus (Cls isSpace)) s = whitespace_run s"
  unfolding first_match_first_of whitespace_run_def by simp

lemma cleanTitleForSearch_steps: "cleanTitleForSearch t = normalization_steps t"
proof -
  have p: "first_match (Seq (Star (Cls isSpace)) (Seq (chr CHR ''('')
             (Seq (LazyStar (Cls (\<lambda>c. \<not> isLineTerminator c))) (Seq (chr CHR '')'') (Star (Cls isSpace))))))
           = enclosed_group 0x28 0x29"
    using first_match_enclosed[of "CHR ''(''" "CHR '')''"] not_space_paren by (intro ext) simp
  have b: "first_match (Seq (Star (Cls isSpace)) (Seq (chr CHR ''['')
             (Seq (LazyStar (Cls (\<lambda>c. \<not> isLineTerminator c))) (Seq (chr CHR '']'') (Star (Cls isSpace))))))
           = enclosed_group 0x5B 0x5D"
    using first_match_enclosed[of "CHR ''[''" "CHR '']''"] not_space_paren by (intro ext) simp
  have w: "first_match (Seq (lit_i w) (Seq (plus (Cls isSpace)) (plus (Cls isDigit)))) = word_number w" for w
    by (intro ext) (rule first_match_word_number)
  have s: "first_match (plus (Cls isSpace)) = whitespace_run"
    by (intro ext) (rule first_match_whitespace)
  show ?thesis
    unfolding cleanTitleForSearch_def normalization_steps_def replace_all_def replace_start_def
      p b w s first_match_number_dot
    by (cases "number_dot_prefix t")
       (simp_all add: strip_number_prefix_def remove_each_def collapse_whitespace_def js_def)
qed

lemma gsub_skip: "k \<le> length s \<Longrightarrow> gsub m rep k s = gsub m rep 0 (drop k s)"
  by (induction m rep k s rule: gsub.induct) simp_all

lemma collapse_whitespace_Cons:
  "collapse_whitespace (c # cs) =
     (if isSpace c then 0x20 # collapse_whitespace (dropWhile isSpace cs) else c # collapse_whitespace cs)"
proof (cases "isSpace c")
  case True
  have len: "length cs = length (takeWhile isSpace cs) + length (dropWhile isSpace cs)"
    by (metis length_append takeWhile_dropWhile_id)
  have n: "Suc (length cs) - length (dropWhile isSpace cs) = Suc (length (takeWhile isSpace cs))"
    using len by simp
  have d: "drop (length (takeWhile isSpace cs)) cs = dropWhile isSpace cs"
    by (simp add: dropWhile_eq_drop)
  have k: "length (takeWhile isSpace cs) \<le> length cs"
    by (rule length_takeWhile_le)
  have m: "whitespace_run (c # cs) = Some (dropWhile isSpace cs)"
    using True by (simp add: whitespace_run_def)
  have "gsub whitespace_run [0x20] 0 (c # cs) =
          [0x20] @ gsub whitespace_run [0x20] (length (takeWhile isSpace cs)) cs"
    by (simp add: m n)
  also have "\<dots> = [0x20] @ gsub whitespace_run [0x20] 0 (dropWhile isSpace cs)"
    using gsub_skip[OF k, of whitespace_run "[0x20]"] d by simp
  finally show ?thesis using True by (simp add: collapse_whitespace_def)
next
  case False
  then show ?thesis by (simp add: collapse_whitespace_def whitespace_run_def)
qed

lemma collapse_whitespace_Nil [simp]: "collapse_whitespace [] = []"
  by (simp add: collapse_whitespace_def whitespace_run_def)

lemma single_spaced_collapse:
  "single_spaced (collapse_whitespace s)
   \<and> (collapse_whitespace s \<noteq> [] \<and> isSpace (hd (collapse_whitespace s)) \<longrightarrow> s \<noteq> [] \<and> isSpace (hd s))"
proof (induction "length s" arbitrary: s rule: less_induct)
  case less
  show ?case
  proof (cases s)
    case Nil
    then show ?thesis by simp
  next
    case (Cons c cs)
    show ?thesis
    proof (cases "isSpace c")
      case True
      let ?rest = "dropWhile isSpace cs"
      have "length ?rest < length s" using Cons by (simp add: le_imp_less_Suc length_dropWhile_le)
      from less[OF this] have ih: "single_spaced (collapse_whitespace ?rest)"
        "collapse_whitespace ?rest \<noteq> [] \<and> isSpace (hd (collapse_whitespace ?rest)) \<longrightarrow> ?rest \<noteq> [] \<and> isSpace (hd ?rest)"
        by simp_all
      have nohd: "?rest \<noteq> [] \<Longrightarrow> \<not> isSpace (hd ?rest)"
        by (simp add: hd_dropWhile)
      have "single_spaced (0x20 # collapse_whitespace ?rest)"
        using ih nohd by (cases "collapse_whitespace ?rest") auto
      then show ?thesis using Cons True by (simp add: collapse_whitespace_Cons)
    next
      case False
      have "length cs < length s" using Cons by simp
      from less[OF this] have ih: "single_spaced (collapse_whitespace cs)" by simp
      have "single_spaced (c # collapse_whitespace cs)"
        using ih False by (cases "collapse_whitespace cs") auto
      then show ?thesis using Cons False by (simp add: collapse_whitespace_Cons)
    qed
  qed
qed

lemma single_spaced_suffix: "single_spaced (xs @ ys) \<Longrightarrow> single_spaced ys"
  by (induction xs rule: single_spaced.induct) (auto elim: single_spaced.elims)

lemma single_spaced_prefix: "single_spaced (xs @ ys) \<Longrightarrow> single_spaced xs"
proof (induction xs rule: single_spaced.induct)
  case 1
  then show ?case by simp
next
  case (2 c)
  then show ?case by (cases ys) auto
next
  case (3 c d s)
  then show ?case by auto
qed

lemma trim_parts: "\<exists>pre post. s = pre @ trim s @ post"
proof -
  let ?a = "dropWhile isSpace s"
  have 1: "s = takeWhile isSpace s @ ?a" by simp
  have "rev ?a = takeWhile isSpace (rev ?a) @ dropWhile isSpace (rev ?a)" by simp
  then have "?a = rev (dropWhile isSpace (rev ?a)) @ rev (takeWhile isSpace (rev ?a))"
    by (metis rev_append rev_rev_ident)
  then have "s = takeWhile isSpace s @ trim s @ rev (takeWhile isSpace (rev ?a))"
    using 1 by (simp add: trim_def)
  then show ?thesis by blast
qed

lemma single_spaced_trim: "single_spaced s \<Longrightarrow> single_spaced (trim s)"
  using trim_parts[of s] by (metis single_spaced_prefix single_spaced_suffix)

lemma trimmed_trim: "trimmed (trim s)"
proof (cases "trim s = []")
  case True
  then show ?thesis by (simp add: trimmed_def)
next
  case False
  let ?a = "dropWhile isSpace s"
  let ?b = "dropWhile isSpace (rev ?a)"
  have b: "?b \<noteq> []" using False by (simp add: trim_def)
  have "\<not> isSpace (hd ?b)" using b by (simp add: hd_dropWhile)
  then have l: "\<not> isSpace (last (trim s))" using b by (simp add: trim_def last_rev)
  have a: "?a \<noteq> []"
  proof
    assume e: "?a = []"
    have "?b = []" unfolding e by simp
    with b show False by blast
  qed
  have ha: "\<not> isSpace (hd ?a)" using a by (simp add: hd_dropWhile)
  obtain post where "?a = trim s @ post"
  proof -
    have "rev ?a = takeWhile isSpace (rev ?a) @ ?b" by simp
    then have "?a = rev ?b @ rev (takeWhile isSpace (rev ?a))" by (metis rev_append rev_rev_ident)
    then show ?thesis using that by (simp add: trim_def)
  qed
  then have "hd ?a = hd (trim s)" using False by (metis hd_append2)
  then show ?thesis using ha l by (simp add: trimmed_def)
qed

text \<open>
  Claim C9. For every title, \<^verbatim>\<open>cleanTitleForSearch\<close> is the chain of the steps the
  specification names: it strips a leading number-and-dot prefix (with the white space
  after it), removes each parenthesised and then each bracketed group (up to the first
  closing character, on one line, with the white space around it), removes each
  "season n" and then each "series n" whatever the case of the letters, replaces each run
  of white space by one space, and trims. So its result neither starts nor ends with
  white space, and every white space in it is a single space between two other characters.
  "1. My Show (2023)" normalises to "My Show", and \<^verbatim>\<open>removeCountryIndicators\<close> turns
  "My Show PH" into "My Show".
\<close>

theorem cleanTitleForSearch_spec:
  "cleanTitleForSearch t = normalization_steps t
   \<and> trimmed (cleanTitleForSearch t)
   \<and> single_spaced (cleanTitleForSearch t)
   \<and> cleanTitleForSearch (js ''1. My Show (2023)'') = js ''My Show''
   \<and> removeCountryIndicators (js ''My Show PH'') = js ''My Show''"
proof -
  have "trimmed (normalization_steps t)"
    unfolding normalization_steps_def by (rule trimmed_trim)
  moreover have "single_spaced (normalization_steps t)"
    unfolding normalization_steps_def using single_spaced_collapse by (intro single_spaced_trim) blast
  ultimately show ?thesis
    by (simp add: cleanTitleForSearch_steps clean_example[unfolded cleanTitleForSearch_steps] country_example)
qed

theorem cleanTitleForSearch_spec_witness:
  "normalization_steps (js ''1. My Show (2023)'') = js ''My Show''
   \<and> trimmed (js ''My Show'')
   \<and> single_spaced (js ''My Show'')"
  using cleanTitleForSearch_spec[of "js ''1. My Show (2023)''"] by auto

end
